theory Spec2Isabelle
  imports Complex_Main "HOL-Library.Word"
begin

section \<open>Data model\<close>

text \<open>
  A \<open>torch_geometric\<close> \<open>Data\<close> object as the source builds it: the node feature
  matrix \<open>x\<close> (one row per node), \<open>edge_index\<close> (a tensor of shape 2 by E, kept here
  as the list of its E columns, each column a pair (source, target)), the label tensor
  \<open>y\<close> along its first dimension, and the three masks that \<open>read_syn_data\<close> attaches
  afterwards (absent on every other record). Conversions to float are the identity
  of the model; tensor entries are numbers of HOL.
\<close>

record 'l Data =
  x :: "real list list"
  edge_index :: "(nat \<times> nat) list"
  y :: "'l list"
  train_mask :: "bool list option"
  val_mask :: "bool list option"
  test_mask :: "bool list option"

text \<open>
  The errors of the model. \<open>IndexError\<close>, \<open>ValueError\<close> and \<open>AttributeError\<close> are what
  Python raises;
  \<open>MalformedInputError\<close> is the error the specification names, which no line of the
  source raises; \<open>NotARun\<close> marks a sequence of random draws that the sampler could
  not have produced (a draw outside the support of the distribution, or too few
  draws for the run).
\<close>

datatype error = IndexError | ValueError | AttributeError | MalformedInputError | NotARun

section \<open>Library primitives\<close>

text \<open>
  Modelled from the spec: \<open>dense_to_sparse\<close> is a function of torch_geometric, not of
  this repository's source. Section 4.1 of the specification: for every cell (i, j)
  with nonzero value emit the directed edge (i, j), in row-major scan order (row i,
  then column j ascending); zero cells produce no edge. The scan is written as the
  two nested loops.
\<close>

fun scan_row :: "nat \<Rightarrow> nat \<Rightarrow> ('a::zero) list \<Rightarrow> (nat \<times> nat) list" where
  "scan_row i j [] = []"
| "scan_row i j (v # vs) = (if v \<noteq> 0 then (i, j) # scan_row i (Suc j) vs else scan_row i (Suc j) vs)"

fun scan_rows :: "nat \<Rightarrow> ('a::zero) list list \<Rightarrow> (nat \<times> nat) list" where
  "scan_rows i [] = []"
| "scan_rows i (r # rs) = scan_row i 0 r @ scan_rows (Suc i) rs"

definition dense_to_sparse :: "('a::zero) list list \<Rightarrow> (nat \<times> nat) list" where
  "dense_to_sparse M = scan_rows 0 M"

text \<open>The number of nonzero cells of a matrix, counted cell by cell.\<close>

definition count_nonzero :: "('a::zero) list list \<Rightarrow> nat" where
  "count_nonzero M = sum_list (map (\<lambda>r. length (filter (\<lambda>v. v \<noteq> 0) r)) M)"

text \<open>The row-major order of cells: (i, j) comes before (k, l).\<close>

definition row_major_less :: "nat \<times> nat \<Rightarrow> nat \<times> nat \<Rightarrow> bool" where
  "row_major_less p q = (fst p < fst q \<or> (fst p = fst q \<and> snd p < snd q))"

text \<open>
  \<open>np.where(v)[0]\<close> on a vector: the indices of its nonzero entries, ascending.
  \<open>np.where(m)[1]\<close> on a matrix: the column indices of its nonzero entries, the
  entries taken in row-major order.
\<close>

fun where_from :: "nat \<Rightarrow> int list \<Rightarrow> nat list" where
  "where_from j [] = []"
| "where_from j (v # vs) = (if v \<noteq> 0 then j # where_from (Suc j) vs else where_from (Suc j) vs)"

definition np_where_0 :: "int list \<Rightarrow> nat list" where
  "np_where_0 v = where_from 0 v"

definition np_where_1 :: "int list list \<Rightarrow> nat list" where
  "np_where_1 m = concat (map np_where_0 m)"

section \<open>The readers\<close>

text \<open>
  The unpickled contents of the BA-2Motifs raw file: \<open>dense_edges\<close> of shape
  [N, V, V], \<open>node_features\<close> of shape [N, V, F] and \<open>graph_labels\<close> of shape [N, C].
\<close>

record ba2motif_raw =
  dense_edges :: "int list list list"
  node_features :: "real list list list"
  graph_labels :: "int list list"

text \<open>
  \<open>read_ba2motif_data\<close>: the loop runs over \<open>range(dense_edges.shape[0])\<close>; indexing
  \<open>node_features\<close> or \<open>graph_labels\<close> beyond their first dimension raises IndexError.
\<close>

definition ba2motif_record :: "ba2motif_raw \<Rightarrow> nat \<Rightarrow> nat Data" where
  "ba2motif_record raw graph_idx =
     \<lparr> x = node_features raw ! graph_idx,
       edge_index = dense_to_sparse (dense_edges raw ! graph_idx),
       y = np_where_0 (graph_labels raw ! graph_idx),
       train_mask = None, val_mask = None, test_mask = None \<rparr>"

fun ba2motif_loop :: "ba2motif_raw \<Rightarrow> nat list \<Rightarrow> nat Data list \<Rightarrow> error + nat Data list" where
  "ba2motif_loop raw [] data_list = Inr data_list"
| "ba2motif_loop raw (graph_idx # rest) data_list =
     (if length (node_features raw) \<le> graph_idx then Inl IndexError
      else if length (graph_labels raw) \<le> graph_idx then Inl IndexError
      else ba2motif_loop raw rest (data_list @ [ba2motif_record raw graph_idx]))"

definition read_ba2motif_data :: "ba2motif_raw \<Rightarrow> error + nat Data list" where
  "read_ba2motif_data raw = ba2motif_loop raw [0..<length (dense_edges raw)] []"

text \<open>
  A numpy array of two dimensions with int64 entries; the label matrices of a
  single-graph raw file are modelled as such arrays. It is given by its number of
  columns and its rows, every row of that length (\<open>is_ndarray\<close>). The entries are
  64-bit words, so that sums and products wrap as numpy's do; \<open>sint\<close> reads the
  signed value of an entry.
\<close>

record ndarray =
  ncols :: nat
  rows :: "64 word list list"

definition nrows :: "ndarray \<Rightarrow> nat" where
  "nrows a = length (rows a)"

definition is_ndarray :: "ndarray \<Rightarrow> bool" where
  "is_ndarray a = list_all (\<lambda>r. length r = ncols a) (rows a)"

text \<open>
  numpy's broadcasting of an elementwise operation on two such arrays. Along each
  dimension the two extents must be equal or one of them must be 1, and the array
  of extent 1 is repeated; any other pair of extents raises ValueError.
\<close>

definition broadcast_dim :: "nat \<Rightarrow> nat \<Rightarrow> nat option" where
  "broadcast_dim m n =
     (if m = n then Some m else if m = 1 then Some n else if n = 1 then Some m else None)"

definition cell :: "ndarray \<Rightarrow> nat \<Rightarrow> nat \<Rightarrow> 64 word" where
  "cell a i j = rows a ! (if nrows a = 1 then 0 else i) ! (if ncols a = 1 then 0 else j)"

definition broadcast :: "(64 word \<Rightarrow> 64 word \<Rightarrow> 64 word) \<Rightarrow> ndarray \<Rightarrow> ndarray \<Rightarrow> error + ndarray" where
  "broadcast f a b =
     (case broadcast_dim (nrows a) (nrows b) of
        None \<Rightarrow> Inl ValueError
      | Some r \<Rightarrow>
          (case broadcast_dim (ncols a) (ncols b) of
             None \<Rightarrow> Inl ValueError
           | Some c \<Rightarrow>
               Inr \<lparr> ncols = c,
                     rows = map (\<lambda>i. map (\<lambda>j. f (cell a i j) (cell b i j)) [0..<c]) [0..<r] \<rparr>))"

text \<open>\<open>mask.reshape(-1, 1)\<close>: one column, a bool counting as 0 or 1 in the product.\<close>

definition bit_of :: "bool \<Rightarrow> 64 word" where
  "bit_of m = (if m then 1 else 0)"

definition reshape_column :: "bool list \<Rightarrow> ndarray" where
  "reshape_column msk = \<lparr> ncols = 1, rows = map (\<lambda>m. [bit_of m]) msk \<rparr>"

text \<open>
  The unpickled contents of a single-graph raw file. In the raw format the label
  matrices have shape [V, C] and the masks length V: \<open>syn_shapes_ok\<close> says so.
\<close>

record syn_raw =
  adj :: "int list list"
  features :: "real list list"
  y_train :: ndarray
  y_val :: ndarray
  y_test :: ndarray
  train_mask_raw :: "bool list"
  val_mask_raw :: "bool list"
  test_mask_raw :: "bool list"
  edge_label_matrix :: "int list list"

definition syn_shapes_ok :: "syn_raw \<Rightarrow> bool" where
  "syn_shapes_ok raw =
     (let V = length (train_mask_raw raw); C = ncols (y_train raw) in
        length (val_mask_raw raw) = V \<and> length (test_mask_raw raw) = V \<and>
        nrows (y_train raw) = V \<and> nrows (y_val raw) = V \<and> nrows (y_test raw) = V \<and>
        ncols (y_val raw) = C \<and> ncols (y_test raw) = C \<and>
        is_ndarray (y_train raw) \<and> is_ndarray (y_val raw) \<and> is_ndarray (y_test raw))"

text \<open>
  \<open>read_syn_data\<close>. The label matrix is
  \<open>train_mask.reshape(-1, 1) * y_train + val_mask.reshape(-1, 1) * y_val +
  test_mask.reshape(-1, 1) * y_test\<close>, evaluated left to right, each operation
  broadcasting or raising; the labels are \<open>np.where\<close> of it, second component.
\<close>

definition read_syn_data :: "syn_raw \<Rightarrow> error + nat Data" where
  "read_syn_data raw =
     (case broadcast (*) (reshape_column (train_mask_raw raw)) (y_train raw) of
        Inl e \<Rightarrow> Inl e
      | Inr t1 \<Rightarrow>
     (case broadcast (*) (reshape_column (val_mask_raw raw)) (y_val raw) of
        Inl e \<Rightarrow> Inl e
      | Inr t2 \<Rightarrow>
     (case broadcast (+) t1 t2 of
        Inl e \<Rightarrow> Inl e
      | Inr s12 \<Rightarrow>
     (case broadcast (*) (reshape_column (test_mask_raw raw)) (y_test raw) of
        Inl e \<Rightarrow> Inl e
      | Inr t3 \<Rightarrow>
     (case broadcast (+) s12 t3 of
        Inl e \<Rightarrow> Inl e
      | Inr label_matrix \<Rightarrow>
          Inr \<lparr> x = features raw,
                edge_index = dense_to_sparse (adj raw),
                y = np_where_1 (map (map sint) (rows label_matrix)),
                train_mask = Some (train_mask_raw raw),
                val_mask = Some (val_mask_raw raw),
                test_mask = Some (test_mask_raw raw) \<rparr>)))))"

section \<open>The BA-LRP generators\<close>

text \<open>
  The random source is explicit: \<open>draws\<close> is the sequence of values that successive
  calls of \<open>prob_dist.sample()\<close> return, consumed from the front and handed on. A
  draw must lie in the support of the distribution (an index below the length of
  \<open>probs\<close> whose probability is positive); a sequence that breaks this, or ends
  early, is not a run. When the normalising sum is zero the probabilities are not
  numbers and \<open>Categorical\<close> rejects them with ValueError.
\<close>

definition init_graph :: "real \<Rightarrow> real list Data" where
  "init_graph label =
     \<lparr> x = [[1], [1]], edge_index = [(0, 1), (1, 0)], y = [[label]],
       train_mask = None, val_mask = None, test_mask = None \<rparr>"

text \<open>\<open>(data.edge_index[0] == node_idx).float().sum()\<close>\<close>

definition degree :: "real list Data \<Rightarrow> nat \<Rightarrow> nat" where
  "degree data node_idx = length (filter (\<lambda>s. s = node_idx) (map fst (edge_index data)))"

definition in_support :: "real list \<Rightarrow> nat \<Rightarrow> bool" where
  "in_support probs k = (k < length probs \<and> 0 < probs ! k)"

definition add_edge :: "real list Data \<Rightarrow> nat \<Rightarrow> nat \<Rightarrow> real list Data" where
  "add_edge data node_pick i =
     data\<lparr>edge_index := edge_index data @ [(node_pick, i), (i, node_pick)]\<rparr>"

definition add_node :: "real list Data \<Rightarrow> real list Data" where
  "add_node data = data\<lparr>x := x data @ [[1]]\<rparr>"

definition class1_sum_deg :: "nat \<Rightarrow> real list Data \<Rightarrow> nat" where
  "class1_sum_deg i data = sum_list (map (degree data) [0..<i])"

definition class1_probs :: "nat \<Rightarrow> real list Data \<Rightarrow> real list" where
  "class1_probs i data =
     map (\<lambda>node_idx. real (degree data node_idx) / real (class1_sum_deg i data)) [0..<i]"

definition class1_step :: "nat \<Rightarrow> real list Data \<Rightarrow> nat list \<Rightarrow> error + (real list Data \<times> nat list)" where
  "class1_step i data0 draws =
     (let data = add_node data0 in
      if class1_sum_deg i data = 0 then Inl ValueError
      else (case draws of
              [] \<Rightarrow> Inl NotARun
            | node_pick # rest \<Rightarrow>
                if in_support (class1_probs i data) node_pick
                then Inr (add_edge data node_pick i, rest)
                else Inl NotARun))"

fun class1_loop :: "nat list \<Rightarrow> real list Data \<Rightarrow> nat list \<Rightarrow> error + (real list Data \<times> nat list)" where
  "class1_loop [] data draws = Inr (data, draws)"
| "class1_loop (i # todo) data draws =
     (case class1_step i data draws of
        Inl e \<Rightarrow> Inl e
      | Inr (data', rest) \<Rightarrow> class1_loop todo data' rest)"

definition gen_class1 :: "nat list \<Rightarrow> error + (real list Data \<times> nat list)" where
  "gen_class1 draws = class1_loop [2..<20] (init_graph 0) draws"

definition epsilon :: real where
  "epsilon = 1 / 10 ^ 30"

definition deg_reciprocal :: "nat \<Rightarrow> real list Data \<Rightarrow> real list" where
  "deg_reciprocal i data = map (\<lambda>node_idx. 1 / (real (degree data node_idx) + epsilon)) [0..<i]"

definition class2_probs :: "nat \<Rightarrow> real list Data \<Rightarrow> real list" where
  "class2_probs i data =
     map (\<lambda>r. r / sum_list (deg_reciprocal i data)) (deg_reciprocal i data)"

text \<open>
  One sample followed by the loop \<open>while new_node_pick == node_pick\<close>: draws are taken
  until one differs from \<open>node_pick\<close> (which starts as -1).
\<close>

fun sample_new :: "real list \<Rightarrow> int \<Rightarrow> nat list \<Rightarrow> error + (nat \<times> nat list)" where
  "sample_new probs node_pick [] = Inl NotARun"
| "sample_new probs node_pick (k # rest) =
     (if \<not> in_support probs k then Inl NotARun
      else if int k = node_pick then sample_new probs node_pick rest
      else Inr (k, rest))"

text \<open>The loop \<open>for _ in range(1 if i % 5 != 4 else 2)\<close>, by the number of rounds left.\<close>

fun class2_picks :: "nat \<Rightarrow> nat \<Rightarrow> real list \<Rightarrow> int \<Rightarrow> real list Data \<Rightarrow> nat list
    \<Rightarrow> error + (real list Data \<times> nat list)" where
  "class2_picks 0 i probs node_pick data draws = Inr (data, draws)"
| "class2_picks (Suc n) i probs node_pick data draws =
     (case sample_new probs node_pick draws of
        Inl e \<Rightarrow> Inl e
      | Inr (new_node_pick, rest) \<Rightarrow>
          class2_picks n i probs (int new_node_pick) (add_edge data new_node_pick i) rest)"

definition rounds :: "nat \<Rightarrow> nat" where
  "rounds i = (if i mod 5 \<noteq> 4 then 1 else 2)"

definition class2_step :: "nat \<Rightarrow> real list Data \<Rightarrow> nat list \<Rightarrow> error + (real list Data \<times> nat list)" where
  "class2_step i data0 draws =
     (let data = add_node data0 in
      if sum_list (deg_reciprocal i data) = 0 then Inl ValueError
      else class2_picks (rounds i) i (class2_probs i data) (- 1) data draws)"

fun class2_loop :: "nat list \<Rightarrow> real list Data \<Rightarrow> nat list \<Rightarrow> error + (real list Data \<times> nat list)" where
  "class2_loop [] data draws = Inr (data, draws)"
| "class2_loop (i # todo) data draws =
     (case class2_step i data draws of
        Inl e \<Rightarrow> Inl e
      | Inr (data', rest) \<Rightarrow> class2_loop todo data' rest)"

definition gen_class2 :: "nat list \<Rightarrow> error + (real list Data \<times> nat list)" where
  "gen_class2 draws = class2_loop [2..<20] (init_graph 1) draws"

text \<open>Connectivity of a graph on the nodes below n, the edges read as directed.\<close>

definition connected :: "nat \<Rightarrow> (nat \<times> nat) list \<Rightarrow> bool" where
  "connected n es = (\<forall>u<n. \<forall>v<n. (u, v) \<in> (set es)\<^sup>*)"

definition symmetric :: "(nat \<times> nat) list \<Rightarrow> bool" where
  "symmetric es = (\<forall>e\<in>set es. (snd e, fst e) \<in> set es)"

definition endpoints_below :: "nat \<Rightarrow> (nat \<times> nat) list \<Rightarrow> bool" where
  "endpoints_below n es = (\<forall>e\<in>set es. fst e < n \<and> snd e < n)"


definition both_directions :: "(nat \<times> nat) list \<Rightarrow> (nat \<times> nat) list" where
  "both_directions ps = concat (map (\<lambda>(a, b). [(a, b), (b, a)]) ps)"

section \<open>Collation\<close>

text \<open>
  Modelled from the spec: \<open>collate\<close> is inherited from torch_geometric's
  \<open>InMemoryDataset\<close> and is not in this repository's source. Sections 3 and 4.3 of
  the specification: the collated dataset holds the concatenated node features, the
  concatenated \<open>edge_index\<close> with every node index of record k shifted by the running
  sum of the node counts of records 0..k-1, the concatenated labels, and a slice
  table with one entry per record, (feature range, edge range, label range), each
  range half-open and recorded from the cumulative offsets as the record is
  appended. The empty list gives zero slices and empty arrays.
\<close>

record 'l CollatedDataset =
  c_x :: "real list list"
  c_edge_index :: "(nat \<times> nat) list"
  c_y :: "'l list"
  slices :: "((nat \<times> nat) \<times> (nat \<times> nat) \<times> (nat \<times> nat)) list"

definition empty_collated :: "'l CollatedDataset" where
  "empty_collated = \<lparr> c_x = [], c_edge_index = [], c_y = [], slices = [] \<rparr>"

definition shift_edges :: "nat \<Rightarrow> (nat \<times> nat) list \<Rightarrow> (nat \<times> nat) list" where
  "shift_edges off es = map (\<lambda>(s, t). (s + off, t + off)) es"

definition append_record :: "'l CollatedDataset \<Rightarrow> 'l Data \<Rightarrow> 'l CollatedDataset" where
  "append_record c d =
     (let n0 = length (c_x c); e0 = length (c_edge_index c); l0 = length (c_y c) in
      \<lparr> c_x = c_x c @ x d,
        c_edge_index = c_edge_index c @ shift_edges n0 (edge_index d),
        c_y = c_y c @ y d,
        slices = slices c @ [((n0, n0 + length (x d)),
                              (e0, e0 + length (edge_index d)),
                              (l0, l0 + length (y d)))] \<rparr>)"

fun collate_loop :: "'l CollatedDataset \<Rightarrow> 'l Data list \<Rightarrow> 'l CollatedDataset" where
  "collate_loop c [] = c"
| "collate_loop c (d # ds) = collate_loop (append_record c d) ds"

definition collate :: "'l Data list \<Rightarrow> 'l CollatedDataset" where
  "collate records = collate_loop empty_collated records"

text \<open>
  Ranges that tile the interval from s to n: the first starts at s, each next one starts
  where the one before ends, the last ends at n. \<open>slice_of\<close> cuts a range out
  of an array.
\<close>

fun tiles :: "nat \<Rightarrow> (nat \<times> nat) list \<Rightarrow> nat \<Rightarrow> bool" where
  "tiles s [] n = (s = n)"
| "tiles s (r # rs) n = (fst r = s \<and> fst r \<le> snd r \<and> tiles (snd r) rs n)"

definition slice_of :: "nat \<times> nat \<Rightarrow> 'a list \<Rightarrow> 'a list" where
  "slice_of r xs = take (snd r - fst r) (drop (fst r) xs)"

definition node_offset :: "'l Data list \<Rightarrow> nat \<Rightarrow> nat" where
  "node_offset records k = sum_list (map (\<lambda>d. length (x d)) (take k records))"

section \<open>The dataset builders\<close>

text \<open>
  \<open>BA_LRP.process\<close>. When the raw file exists it is copied and nothing is generated;
  otherwise \<open>num_per_class\<close> rounds each append a class-1 and then a class-2 graph,
  the random draws handed from one generator to the next, and the collated list is
  saved. \<open>range\<close> of a negative number is empty.
\<close>

datatype 'c saved = RawCopied | Saved 'c

fun BA_LRP_loop :: "nat \<Rightarrow> real list Data list \<Rightarrow> nat list
    \<Rightarrow> error + (real list Data list \<times> nat list)" where
  "BA_LRP_loop 0 data_list draws = Inr (data_list, draws)"
| "BA_LRP_loop (Suc n) data_list draws =
     (case gen_class1 draws of
        Inl e \<Rightarrow> Inl e
      | Inr (g1, rest1) \<Rightarrow>
          (case gen_class2 rest1 of
             Inl e \<Rightarrow> Inl e
           | Inr (g2, rest2) \<Rightarrow> BA_LRP_loop n (data_list @ [g1, g2]) rest2))"

definition BA_LRP_process :: "bool \<Rightarrow> int \<Rightarrow> nat list
    \<Rightarrow> error + (real list CollatedDataset saved \<times> nat list)" where
  "BA_LRP_process raw_files_exist num_per_class draws =
     (if raw_files_exist then Inr (RawCopied, draws)
      else (case BA_LRP_loop (nat num_per_class) [] draws of
              Inl e \<Rightarrow> Inl e
            | Inr (data_list, rest) \<Rightarrow> Inr (Saved (collate data_list), rest)))"

text \<open>\<open>str.lower\<close> on ASCII letters.\<close>

definition lower_char :: "char \<Rightarrow> char" where
  "lower_char c =
     (case map_of (zip ''ABCDEFGHIJKLMNOPQRSTUVWXYZ'' ''abcdefghijklmnopqrstuvwxyz'') c of
        None \<Rightarrow> c
      | Some l \<Rightarrow> l)"

definition lower :: "string \<Rightarrow> string" where
  "lower s = map lower_char s"

text \<open>
  \<open>SynGraphDataset.process\<close>. The object's fields that the method reads are its
  name and the two hooks; the unpickled file is a 3-tuple or a 9-tuple, and unpacking
  the wrong one raises ValueError. In the BA-2Motifs branch a hook, when present, is
  not given the list just read: the list is rebuilt with
  \<open>[self.get(idx) for idx in range(len(self))]\<close> from the (data, slices) pair the
  object holds at that moment. \<open>get\<close> and \<open>len\<close> are library methods; their joint
  result is the parameter \<open>get_all\<close>, a function of the held pair (None when none
  has been assigned).
\<close>

record syn_self =
  name :: string
  pre_filter :: "(nat Data \<Rightarrow> bool) option"
  pre_transform :: "(nat Data \<Rightarrow> nat Data) option"

datatype raw_file = Ba2motifFile ba2motif_raw | SynFile syn_raw

definition filter_hook :: "(nat CollatedDataset option \<Rightarrow> error + nat Data list) \<Rightarrow> syn_self
    \<Rightarrow> nat Data list \<times> nat CollatedDataset option
    \<Rightarrow> error + (nat Data list \<times> nat CollatedDataset option)" where
  "filter_hook get_all self st =
     (case pre_filter self of
        None \<Rightarrow> Inr st
      | Some keep \<Rightarrow>
          (case get_all (snd st) of
             Inl e \<Rightarrow> Inl e
           | Inr held \<Rightarrow> (let data_list = filter keep held in Inr (data_list, Some (collate data_list)))))"

definition transform_hook :: "(nat CollatedDataset option \<Rightarrow> error + nat Data list) \<Rightarrow> syn_self
    \<Rightarrow> nat Data list \<times> nat CollatedDataset option
    \<Rightarrow> error + (nat Data list \<times> nat CollatedDataset option)" where
  "transform_hook get_all self st =
     (case pre_transform self of
        None \<Rightarrow> Inr st
      | Some f \<Rightarrow>
          (case get_all (snd st) of
             Inl e \<Rightarrow> Inl e
           | Inr held \<Rightarrow> (let data_list = map f held in Inr (data_list, Some (collate data_list)))))"

definition SynGraphDataset_process :: "(nat CollatedDataset option \<Rightarrow> error + nat Data list)
    \<Rightarrow> syn_self \<Rightarrow> nat CollatedDataset option \<Rightarrow> raw_file \<Rightarrow> error + nat CollatedDataset" where
  "SynGraphDataset_process get_all self held file =
     (if lower (name self) = lower ''BA_2Motifs'' then
        (case file of
           SynFile _ \<Rightarrow> Inl ValueError
         | Ba2motifFile raw \<Rightarrow>
             (case read_ba2motif_data raw of
                Inl e \<Rightarrow> Inl e
              | Inr data_list \<Rightarrow>
                  (case filter_hook get_all self (data_list, held) of
                     Inl e \<Rightarrow> Inl e
                   | Inr st1 \<Rightarrow>
                       (case transform_hook get_all self st1 of
                          Inl e \<Rightarrow> Inl e
                        | Inr st2 \<Rightarrow> Inr (collate (fst st2))))))
      else
        (case file of
           Ba2motifFile _ \<Rightarrow> Inl ValueError
         | SynFile raw \<Rightarrow>
             (case read_syn_data raw of
                Inl e \<Rightarrow> Inl e
              | Inr data \<Rightarrow>
                  Inr (collate [case pre_transform self of None \<Rightarrow> data | Some f \<Rightarrow> f data]))))"

text \<open>
  The invariant of the growth loops before step n: n nodes, all endpoints below n, the
  edge list symmetric, every node with an edge, the graph connected. \<open>mid_inv\<close> is the
  state inside step n, the node appended and no edge yet.
\<close>

definition graph_inv :: "nat \<Rightarrow> real list Data \<Rightarrow> bool" where
  "graph_inv n d =
     (length (x d) = n \<and> endpoints_below n (edge_index d) \<and> symmetric (edge_index d) \<and>
      (\<forall>u<n. 0 < degree d u) \<and> connected n (edge_index d))"

definition mid_inv :: "nat \<Rightarrow> real list Data \<Rightarrow> bool" where
  "mid_inv n d =
     (length (x d) = Suc n \<and> endpoints_below (Suc n) (edge_index d) \<and> symmetric (edge_index d) \<and>
      (\<forall>u<n. 0 < degree d u) \<and> connected n (edge_index d))"

text \<open>Two concrete runs, one per generator: the draws and the graph they produce.\<close>

definition class1_draws :: "nat list" where
  "class1_draws = [0, 1, 2, 0, 0, 0, 0, 0, 0, 0, 0, 0, 0, 0, 0, 0, 0, 0]"

definition class1_example :: "real list Data" where
  "class1_example =
     \<lparr> x = [[1], [1], [1], [1], [1], [1], [1], [1], [1], [1], [1], [1], [1],
            [1], [1], [1], [1], [1], [1], [1]],
       edge_index =
           [(0, 1), (1, 0), (0, 2), (2, 0), (1, 3), (3, 1), (2, 4), (4, 2),
            (0, 5), (5, 0), (0, 6), (6, 0), (0, 7), (7, 0), (0, 8), (8, 0),
            (0, 9), (9, 0), (0, 10), (10, 0), (0, 11), (11, 0), (0, 12),
            (12, 0), (0, 13), (13, 0), (0, 14), (14, 0), (0, 15), (15, 0),
            (0, 16), (16, 0), (0, 17), (17, 0), (0, 18), (18, 0), (0, 19),
            (19, 0)],
       y = [[0]], train_mask = None, val_mask = None, test_mask = None \<rparr>"

definition class2_draws :: "nat list" where
  "class2_draws = [0, 1, 2, 2, 0, 0, 0, 0, 0, 0, 1, 0, 0, 0, 0, 0, 1, 0, 0, 0, 0, 0, 1]"

definition class2_example :: "real list Data" where
  "class2_example =
     \<lparr> x = [[1], [1], [1], [1], [1], [1], [1], [1], [1], [1], [1], [1], [1],
            [1], [1], [1], [1], [1], [1], [1]],
       edge_index =
           [(0, 1), (1, 0), (0, 2), (2, 0), (1, 3), (3, 1), (2, 4), (4, 2),
            (0, 4), (4, 0), (0, 5), (5, 0), (0, 6), (6, 0), (0, 7), (7, 0),
            (0, 8), (8, 0), (0, 9), (9, 0), (1, 9), (9, 1), (0, 10),
            (10, 0), (0, 11), (11, 0), (0, 12), (12, 0), (0, 13), (13, 0),
            (0, 14), (14, 0), (1, 14), (14, 1), (0, 15), (15, 0), (0, 16),
            (16, 0), (0, 17), (17, 0), (0, 18), (18, 0), (0, 19), (19, 0),
            (1, 19), (19, 1)],
       y = [[1]], train_mask = None, val_mask = None, test_mask = None \<rparr>"

text \<open>
  Draw sequences that are runs for certain: for class 1, one draw per step, each an
  existing node; for class 2, per step the targets it will accept, as many as the
  step has rounds, distinct, each an existing node.
\<close>

fun admissible1 :: "nat \<Rightarrow> nat list \<Rightarrow> bool" where
  "admissible1 i [] = True"
| "admissible1 i (p # ps) = (p < i \<and> admissible1 (Suc i) ps)"

fun admissible2 :: "nat \<Rightarrow> nat list list \<Rightarrow> bool" where
  "admissible2 i [] = True"
| "admissible2 i (ps # pss) =
     (length ps = rounds i \<and> distinct ps \<and> list_all (\<lambda>p. p < i) ps \<and> admissible2 (Suc i) pss)"

definition class2_targets :: "nat list list" where
  "class2_targets =
     [[0], [1], [2, 0], [0], [0], [0], [0], [0, 1], [0], [0], [0], [0], [0, 1], [0], [0], [0],
      [0], [0, 1]]"

text \<open>Raw inputs used as concrete cases: a label vector with no class, and two graphs.\<close>

definition ba2motif_no_class :: ba2motif_raw where
  "ba2motif_no_class =
     \<lparr> dense_edges = [[[0, 1], [1, 0]]], node_features = [[[1], [1]]], graph_labels = [[0, 0]] \<rparr>"

definition ba2motif_two :: ba2motif_raw where
  "ba2motif_two =
     \<lparr> dense_edges = [[[0, 1], [1, 0]], [[0, 0], [0, 0]]],
       node_features = [[[1], [1]], [[1], [1]]],
       graph_labels = [[0, 1], [1, 0]] \<rparr>"

text \<open>
  The row that the masks of node n designate, the number of masks set for node n,
  and row n of the mask-weighted sum written out entry by entry. \<open>tabulate2\<close> is the
  array of c columns and r rows with entry f i j at (i, j).
\<close>

definition designated_row :: "syn_raw \<Rightarrow> nat \<Rightarrow> 64 word list" where
  "designated_row raw n =
     (if train_mask_raw raw ! n then rows (y_train raw) ! n
      else if val_mask_raw raw ! n then rows (y_val raw) ! n
      else rows (y_test raw) ! n)"

definition masks_on :: "syn_raw \<Rightarrow> nat \<Rightarrow> nat" where
  "masks_on raw n =
     (if train_mask_raw raw ! n then 1 else 0) + (if val_mask_raw raw ! n then 1 else 0) +
     (if test_mask_raw raw ! n then 1 else 0)"

definition weighted_row :: "syn_raw \<Rightarrow> nat \<Rightarrow> 64 word list" where
  "weighted_row raw n =
     map (\<lambda>j. bit_of (train_mask_raw raw ! n) * rows (y_train raw) ! n ! j +
              bit_of (val_mask_raw raw ! n) * rows (y_val raw) ! n ! j +
              bit_of (test_mask_raw raw ! n) * rows (y_test raw) ! n ! j)
         [0..<ncols (y_train raw)]"

definition tabulate2 :: "nat \<Rightarrow> nat \<Rightarrow> (nat \<Rightarrow> nat \<Rightarrow> 64 word) \<Rightarrow> ndarray" where
  "tabulate2 c r f = \<lparr> ncols = c, rows = map (\<lambda>i. map (\<lambda>j. f i j) [0..<c]) [0..<r] \<rparr>"

text \<open>
  Single-graph inputs used as concrete cases. The first two are of the raw format and
  differ in node 1: no mask in the first, the test mask in the second. In the third
  the train mask has three entries for two rows of labels. In the fourth both the
  train and the validation mask are set for the one node and the two label entries
  are the smallest int64, whose sum wraps to 0. In the fifth \<open>y_train\<close> has a single
  row, which numpy repeats for both nodes.
\<close>

definition syn_unmasked :: syn_raw where
  "syn_unmasked =
     \<lparr> adj = [[0, 1], [1, 0]], features = [[1], [1]],
       y_train = \<lparr> ncols = 2, rows = [[0, 1], [0, 0]] \<rparr>,
       y_val = \<lparr> ncols = 2, rows = [[0, 0], [0, 0]] \<rparr>,
       y_test = \<lparr> ncols = 2, rows = [[0, 0], [1, 0]] \<rparr>,
       train_mask_raw = [True, False], val_mask_raw = [False, False],
       test_mask_raw = [False, False], edge_label_matrix = [[0, 0], [0, 0]] \<rparr>"

definition syn_masked :: syn_raw where
  "syn_masked = syn_unmasked\<lparr>test_mask_raw := [False, True]\<rparr>"

definition syn_bad_shape :: syn_raw where
  "syn_bad_shape = syn_unmasked\<lparr>train_mask_raw := [True, False, False]\<rparr>"

definition syn_wrapping :: syn_raw where
  "syn_wrapping =
     \<lparr> adj = [[0]], features = [[1]],
       y_train = \<lparr> ncols = 1, rows = [[- 9223372036854775808]] \<rparr>,
       y_val = \<lparr> ncols = 1, rows = [[- 9223372036854775808]] \<rparr>,
       y_test = \<lparr> ncols = 1, rows = [[0]] \<rparr>,
       train_mask_raw = [True], val_mask_raw = [True],
       test_mask_raw = [False], edge_label_matrix = [[0]] \<rparr>"

definition syn_single_row :: syn_raw where
  "syn_single_row =
     syn_unmasked\<lparr>y_train := \<lparr> ncols = 2, rows = [[0, 1]] \<rparr>, train_mask_raw := [True, True]\<rparr>"

text \<open>All three range families of a collated dataset tile their arrays.\<close>

definition tiled :: "'l CollatedDataset \<Rightarrow> bool" where
  "tiled c =
     (tiles 0 (map fst (slices c)) (length (c_x c)) \<and>
      tiles 0 (map (fst \<circ> snd) (slices c)) (length (c_edge_index c)) \<and>
      tiles 0 (map (snd \<circ> snd) (slices c)) (length (c_y c)))"

text \<open>
  Dataset objects as the constructor makes them, which passes no \<open>pre_filter\<close> on, so
  that it is None: a single-graph one and a multi-graph one without a transform,
  and one of each with the transform \<open>clear_labels\<close>. \<open>get_all_unassigned\<close> is
  \<open>[self.get(idx) for idx in range(len(self))]\<close> on an object whose \<open>data\<close> and
  \<open>slices\<close> are not assigned yet, as they are not while \<open>process\<close> runs inside the
  constructor: reading them raises AttributeError.
\<close>

definition clear_labels :: "nat Data \<Rightarrow> nat Data" where
  "clear_labels d = d\<lparr>y := []\<rparr>"

definition get_all_unassigned :: "nat CollatedDataset option \<Rightarrow> error + nat Data list" where
  "get_all_unassigned held = Inl AttributeError"

definition ba_shapes_self :: syn_self where
  "ba_shapes_self = \<lparr> name = ''BA_shapes'', pre_filter = None, pre_transform = Some clear_labels \<rparr>"

definition ba2motifs_self :: syn_self where
  "ba2motifs_self = \<lparr> name = ''ba_2motifs'', pre_filter = None, pre_transform = None \<rparr>"

definition ba2motifs_transform_self :: syn_self where
  "ba2motifs_transform_self =
     \<lparr> name = ''BA_2Motifs'', pre_filter = None, pre_transform = Some clear_labels \<rparr>"

text \<open>
  Draws for several rounds of \<open>BA_LRP.process\<close>: per round the class-1 draws and the
  class-2 targets, each admissible; \<open>run_draws\<close> is the sequence they form.
\<close>

fun admissible_runs :: "(nat list \<times> nat list list) list \<Rightarrow> bool" where
  "admissible_runs [] = True"
| "admissible_runs (r # runs) =
     (length (fst r) = 18 \<and> admissible1 2 (fst r) \<and> length (snd r) = 18 \<and>
      admissible2 2 (snd r) \<and> admissible_runs runs)"

fun run_draws :: "(nat list \<times> nat list list) list \<Rightarrow> nat list" where
  "run_draws [] = []"
| "run_draws (r # runs) = fst r @ concat (snd r) @ run_draws runs"

definition two_rounds :: "(nat list \<times> nat list list) list" where
  "two_rounds = [(class1_draws, class2_targets), (class1_draws, class2_targets)]"

text \<open>
  A graph is of class 1 (class 2) when some run of the generator returns it; a list
  alternates when it is class 1, class 2, class 1, class 2, ...
\<close>

definition is_class1 :: "real list Data \<Rightarrow> bool" where
  "is_class1 g = (\<exists>draws rest. gen_class1 draws = Inr (g, rest))"

definition is_class2 :: "real list Data \<Rightarrow> bool" where
  "is_class2 g = (\<exists>draws rest. gen_class2 draws = Inr (g, rest))"

fun alternating :: "real list Data list \<Rightarrow> bool" where
  "alternating [] = True"
| "alternating [g] = False"
| "alternating (g1 # g2 # gs) = (is_class1 g1 \<and> is_class2 g2 \<and> alternating gs)"

section \<open>Properties of the generators\<close>

lemma add_node_simps [simp]:
  "x (add_node d) = x d @ [[1]]" "edge_index (add_node d) = edge_index d" "y (add_node d) = y d"
  by (simp_all add: add_node_def)

lemma add_edge_simps [simp]:
  "x (add_edge d p i) = x d" "edge_index (add_edge d p i) = edge_index d @ [(p, i), (i, p)]"
  "y (add_edge d p i) = y d"
  by (simp_all add: add_edge_def)

lemma degree_add_node [simp]: "degree (add_node d) u = degree d u"
  by (simp add: degree_def)

lemma degree_add_edge:
  "degree (add_edge d p i) u = degree d u + (if p = u then 1 else 0) + (if i = u then 1 else 0)"
  by (simp add: degree_def)

lemma connected_grow:
  assumes c: "connected n es" and p: "p < n"
  shows "connected (Suc n) (es @ [(p, n), (n, p)] @ tl0)"
proof -
  let ?E = "set (es @ [(p, n), (n, p)] @ tl0)"
  have sub: "(set es)\<^sup>* \<subseteq> ?E\<^sup>*" by (rule rtrancl_mono) auto
  have pn: "(p, n) \<in> ?E\<^sup>*" and np: "(n, p) \<in> ?E\<^sup>*" by auto
  have old: "(u, v) \<in> ?E\<^sup>*" if "u < n" "v < n" for u v
    using c sub that by (auto simp: connected_def)
  have "(u, v) \<in> ?E\<^sup>*" if "u < Suc n" "v < Suc n" for u v
  proof (cases "u = n"; cases "v = n")
    assume "u = n" "v \<noteq> n"
    then have "(p, v) \<in> ?E\<^sup>*" using old[of p v] p that by simp
    with np \<open>u = n\<close> show ?thesis by (meson rtrancl_trans)
  next
    assume "u \<noteq> n" "v = n"
    then have "(u, p) \<in> ?E\<^sup>*" using old[of u p] p that by simp
    with pn \<open>v = n\<close> show ?thesis by (meson rtrancl_trans)
  qed (use old that in auto)
  then show ?thesis by (simp add: connected_def)
qed

lemma connected_more:
  assumes c: "connected n es"
  shows "connected n (es @ tl0)"
proof -
  have "(set es)\<^sup>* \<subseteq> (set (es @ tl0))\<^sup>*" by (rule rtrancl_mono) auto
  with c show ?thesis by (auto simp: connected_def)
qed

lemma mid_inv_add_node: "graph_inv n d \<Longrightarrow> mid_inv n (add_node d)"
  by (auto simp: graph_inv_def mid_inv_def endpoints_below_def)

lemma graph_inv_first_edge:
  assumes "mid_inv n d" "p < n"
  shows "graph_inv (Suc n) (add_edge d p n)"
proof -
  have "connected (Suc n) (edge_index d @ [(p, n), (n, p)] @ [])"
    using assms by (intro connected_grow) (auto simp: mid_inv_def)
  moreover have "\<forall>u<Suc n. 0 < degree (add_edge d p n) u"
    using assms by (auto simp: mid_inv_def degree_add_edge less_Suc_eq)
  ultimately show ?thesis
    using assms by (auto simp: mid_inv_def graph_inv_def endpoints_below_def symmetric_def)
qed

lemma graph_inv_more_edge:
  assumes "graph_inv n d" "p < n" "q < n"
  shows "graph_inv n (add_edge d p q)"
proof -
  have "connected n (edge_index d @ [(p, q), (q, p)])"
    using assms by (intro connected_more) (auto simp: graph_inv_def)
  moreover have "\<forall>u<n. 0 < degree (add_edge d p q) u"
    using assms by (auto simp: graph_inv_def degree_add_edge)
  ultimately show ?thesis
    using assms by (auto simp: graph_inv_def endpoints_below_def symmetric_def)
qed

lemma in_support_class1:
  "in_support (class1_probs i d) k \<longleftrightarrow> k < i \<and> 0 < degree d k \<and> 0 < class1_sum_deg i d"
  by (auto simp: in_support_def class1_probs_def zero_less_divide_iff)

lemma class1_step_Inr:
  assumes "class1_step i d ds = Inr (d', rest)"
  obtains p where "ds = p # rest" "p < i" "0 < degree d p" "d' = add_edge (add_node d) p i"
  using assms
  by (auto simp: class1_step_def Let_def in_support_class1 split: if_splits list.splits)

lemma class1_step_inv:
  assumes "class1_step i d ds = Inr (d', rest)" "graph_inv i d"
  shows "graph_inv (Suc i) d'"
  using assms by (elim class1_step_Inr) (simp add: graph_inv_first_edge mid_inv_add_node)

lemma class1_loop_inv:
  "class1_loop [a..<b] d ds = Inr (d', rest) \<Longrightarrow> a \<le> b \<Longrightarrow> graph_inv a d \<Longrightarrow> graph_inv b d'"
proof (induction "b - a" arbitrary: a d ds)
  case 0
  then show ?case by simp
next
  case (Suc k)
  then have ab: "a < b" and upt: "[a..<b] = a # [Suc a..<b]" by (auto simp: upt_conv_Cons)
  from Suc.prems(1) obtain d1 r1 where
    s: "class1_step a d ds = Inr (d1, r1)" and l: "class1_loop [Suc a..<b] d1 r1 = Inr (d', rest)"
    by (auto simp: upt split: sum.splits)
  have "graph_inv (Suc a) d1" using s Suc.prems(3) by (rule class1_step_inv)
  with Suc.hyps(1)[of "Suc a" d1 r1] l ab Suc.hyps(2) show ?case by simp
qed

lemma class1_loop_sizes:
  "class1_loop todo d ds = Inr (d', rest) \<Longrightarrow>
     length (x d') = length (x d) + length todo \<and>
     length (edge_index d') = length (edge_index d) + 2 * length todo \<and> y d' = y d"
proof (induction todo arbitrary: d ds)
  case Nil
  then show ?case by simp
next
  case (Cons i todo)
  from Cons.prems obtain d1 r1 where
    s: "class1_step i d ds = Inr (d1, r1)" and l: "class1_loop todo d1 r1 = Inr (d', rest)"
    by (auto split: sum.splits)
  from s have "length (x d1) = Suc (length (x d))" "length (edge_index d1) = length (edge_index d) + 2"
    "y d1 = y d"
    by (auto elim!: class1_step_Inr)
  with Cons.IH[OF l] show ?case by simp
qed

lemma graph_inv_init: "graph_inv 2 (init_graph l)"
proof -
  have "(u, v) \<in> (set [(0, Suc 0), (Suc 0, 0)])\<^sup>*" if "u < 2" "v < 2" for u v :: nat
  proof -
    from that have "u = 0 \<or> u = 1" "v = 0 \<or> v = 1" by auto
    then show ?thesis by auto
  qed
  then show ?thesis
    by (auto simp: graph_inv_def init_graph_def endpoints_below_def symmetric_def connected_def
        degree_def less_2_cases_iff)
qed

lemma epsilon_pos: "0 < epsilon"
  by (simp add: epsilon_def)

lemma deg_reciprocal_pos: "r \<in> set (deg_reciprocal i d) \<Longrightarrow> 0 < r"
  using epsilon_pos by (auto simp: deg_reciprocal_def intro!: add_nonneg_pos)

lemma sum_list_pos_real: "xs \<noteq> [] \<Longrightarrow> (\<And>r. r \<in> set xs \<Longrightarrow> 0 < r) \<Longrightarrow> 0 < sum_list (xs :: real list)"
  by (induction xs) (auto intro: add_pos_nonneg sum_list_nonneg less_imp_le)

lemma sum_deg_reciprocal_pos: "0 < i \<Longrightarrow> 0 < sum_list (deg_reciprocal i d)"
  by (rule sum_list_pos_real) (auto simp: deg_reciprocal_pos, simp add: deg_reciprocal_def)

lemma length_class2_probs [simp]: "length (class2_probs i d) = i"
  by (simp add: class2_probs_def deg_reciprocal_def)

lemma in_support_class2: "in_support (class2_probs i d) k \<longleftrightarrow> k < i"
proof
  assume "k < i"
  then have "deg_reciprocal i d ! k \<in> set (deg_reciprocal i d)"
    by (simp add: deg_reciprocal_def)
  then have "0 < deg_reciprocal i d ! k" by (rule deg_reciprocal_pos)
  moreover have "0 < sum_list (deg_reciprocal i d)" using \<open>k < i\<close> by (intro sum_deg_reciprocal_pos) simp
  moreover have "k < length (deg_reciprocal i d)" using \<open>k < i\<close> by (simp add: deg_reciprocal_def)
  ultimately show "in_support (class2_probs i d) k"
    using \<open>k < i\<close> by (simp add: in_support_def class2_probs_def)
qed (simp add: in_support_def)

lemma sample_new_Inr:
  "sample_new probs node_pick ds = Inr (k, rest) \<Longrightarrow>
     in_support probs k \<and> int k \<noteq> node_pick \<and> length rest < length ds"
  by (induction probs node_pick ds rule: sample_new.induct) (auto split: if_splits)

lemma class2_picks_inv:
  "class2_picks n i (class2_probs i d0) node_pick d ds = Inr (d', rest) \<Longrightarrow>
     graph_inv (Suc i) d \<Longrightarrow> graph_inv (Suc i) d'"
proof (induction n arbitrary: node_pick d ds)
  case 0
  then show ?case by simp
next
  case (Suc n)
  from Suc.prems(1) obtain k r1 where
    s: "sample_new (class2_probs i d0) node_pick ds = Inr (k, r1)" and
    l: "class2_picks n i (class2_probs i d0) (int k) (add_edge d k i) r1 = Inr (d', rest)"
    by (auto split: sum.splits)
  from sample_new_Inr[OF s] have "k < i" by (simp add: in_support_class2)
  then have "graph_inv (Suc i) (add_edge d k i)"
    using Suc.prems(2) by (intro graph_inv_more_edge) auto
  with Suc.IH[OF l] show ?case .
qed

lemma rounds_cases: "rounds i = 1 \<and> i mod 5 \<noteq> 4 \<or> rounds i = 2 \<and> i mod 5 = 4"
  by (simp add: rounds_def)

lemma class2_step_Inr:
  assumes "class2_step i d ds = Inr (d', rest)"
  obtains p where "i mod 5 \<noteq> 4" "p < i" "d' = add_edge (add_node d) p i"
  | p q where "i mod 5 = 4" "p < i" "q < i" "p \<noteq> q"
      "d' = add_edge (add_edge (add_node d) p i) q i"
proof (cases "i mod 5 = 4")
  case False
  then have r: "rounds i = Suc 0" by (simp add: rounds_def)
  from assms obtain p where
    s: "sample_new (class2_probs i (add_node d)) (- 1) ds = Inr (p, rest)" and
    d': "d' = add_edge (add_node d) p i"
    by (auto simp: class2_step_def Let_def r split: if_splits sum.splits)
  from sample_new_Inr[OF s] have "p < i" by (simp add: in_support_class2)
  with False d' that(1) show ?thesis by blast
next
  case True
  then have r: "rounds i = Suc (Suc 0)" by (simp add: rounds_def)
  from assms obtain p r1 q where
    s1: "sample_new (class2_probs i (add_node d)) (- 1) ds = Inr (p, r1)" and
    s2: "sample_new (class2_probs i (add_node d)) (int p) r1 = Inr (q, rest)" and
    d': "d' = add_edge (add_edge (add_node d) p i) q i"
    by (auto simp: class2_step_def Let_def r split: if_splits sum.splits)
  from sample_new_Inr[OF s1] have "p < i" by (simp add: in_support_class2)
  moreover from sample_new_Inr[OF s2] have "q < i" "p \<noteq> q" by (simp_all add: in_support_class2)
  ultimately show ?thesis using True d' that(2) by blast
qed

lemma class2_step_inv:
  assumes "class2_step i d ds = Inr (d', rest)" "graph_inv i d"
  shows "graph_inv (Suc i) d'"
  using assms(1)
proof (cases rule: class2_step_Inr)
  case (1 p)
  then show ?thesis using assms(2) by (simp add: graph_inv_first_edge mid_inv_add_node)
next
  case (2 p q)
  then have "graph_inv (Suc i) (add_edge (add_node d) p i)"
    using assms(2) by (simp add: graph_inv_first_edge mid_inv_add_node)
  then show ?thesis using 2 by (simp add: graph_inv_more_edge)
qed

lemma class2_loop_inv:
  "class2_loop [a..<b] d ds = Inr (d', rest) \<Longrightarrow> a \<le> b \<Longrightarrow> graph_inv a d \<Longrightarrow> graph_inv b d'"
proof (induction "b - a" arbitrary: a d ds)
  case 0
  then show ?case by simp
next
  case (Suc k)
  then have ab: "a < b" and upt: "[a..<b] = a # [Suc a..<b]" by (auto simp: upt_conv_Cons)
  from Suc.prems(1) obtain d1 r1 where
    s: "class2_step a d ds = Inr (d1, r1)" and l: "class2_loop [Suc a..<b] d1 r1 = Inr (d', rest)"
    by (auto simp: upt split: sum.splits)
  have "graph_inv (Suc a) d1" using s Suc.prems(3) by (rule class2_step_inv)
  with Suc.hyps(1)[of "Suc a" d1 r1] l ab Suc.hyps(2) show ?case by simp
qed

lemma class2_step_sizes:
  assumes "class2_step i d ds = Inr (d', rest)"
  shows "length (x d') = Suc (length (x d)) \<and>
     length (edge_index d') = length (edge_index d) + 2 * rounds i \<and> y d' = y d"
  using assms by (cases rule: class2_step_Inr) (simp_all add: rounds_def)

lemma class2_loop_sizes:
  "class2_loop todo d ds = Inr (d', rest) \<Longrightarrow>
     length (x d') = length (x d) + length todo \<and>
     length (edge_index d') = length (edge_index d) + 2 * sum_list (map rounds todo) \<and> y d' = y d"
proof (induction todo arbitrary: d ds)
  case Nil
  then show ?case by simp
next
  case (Cons i todo)
  from Cons.prems obtain d1 r1 where
    s: "class2_step i d ds = Inr (d1, r1)" and l: "class2_loop todo d1 r1 = Inr (d', rest)"
    by (auto split: sum.splits)
  from class2_step_sizes[OF s] Cons.IH[OF l] show ?case by simp
qed

lemma rounds_total: "sum_list (map rounds [2..<20]) = 22"
  by code_simp

lemma class1_sum_deg_pos: "p < i \<Longrightarrow> 0 < degree d p \<Longrightarrow> 0 < class1_sum_deg i d"
proof -
  assume "p < i" "0 < degree d p"
  then have "degree d p \<in> set (map (degree d) [0..<i])" by simp
  then have "degree d p \<le> sum_list (map (degree d) [0..<i])" by (intro member_le_sum_list) auto
  with \<open>0 < degree d p\<close> show ?thesis by (simp add: class1_sum_deg_def)
qed

lemma class1_step_run:
  "p < i \<Longrightarrow> 0 < degree d p \<Longrightarrow>
     class1_step i d (p # rest) = Inr (add_edge (add_node d) p i, rest)"
  using class1_sum_deg_pos[of p i "add_node d"]
  by (simp add: class1_step_def Let_def in_support_class1)

lemma class2_step_run:
  "0 < i \<Longrightarrow> class2_step i d ds =
     class2_picks (rounds i) i (class2_probs i (add_node d)) (- 1) (add_node d) ds"
  using sum_deg_reciprocal_pos[of i "add_node d"] by (simp add: class2_step_def Let_def)

lemma sample_new_run:
  "sample_new (class2_probs i d) node_pick (k # rest) =
     (if \<not> k < i then Inl NotARun
      else if int k = node_pick then sample_new (class2_probs i d) node_pick rest
      else Inr (k, rest))"
  by (simp add: in_support_class2)

lemma range_2_20: "[2..<20] = [2, 3, 4, 5, 6, 7, 8, 9, 10, 11, 12, 13, 14, 15, 16, 17, 18, 19::nat]"
  by code_simp

lemma class1_run_rest: "gen_class1 (class1_draws @ rest) = Inr (class1_example, rest)"
  by (simp add: gen_class1_def class1_draws_def class1_example_def range_2_20 class1_step_run
      init_graph_def add_edge_def add_node_def degree_def)

lemma class1_run: "gen_class1 class1_draws = Inr (class1_example, [])"
  using class1_run_rest[of "[]"] by simp

lemma class2_picks_1:
  "class2_picks (Suc 0) i probs node_pick data draws =
     (case sample_new probs node_pick draws of
        Inl e \<Rightarrow> Inl e
      | Inr (new_node_pick, rest) \<Rightarrow> Inr (add_edge data new_node_pick i, rest))"
  by (simp split: sum.splits)

lemma class2_picks_2:
  "class2_picks 2 i probs node_pick data draws =
     (case sample_new probs node_pick draws of
        Inl e \<Rightarrow> Inl e
      | Inr (new_node_pick, rest) \<Rightarrow>
          class2_picks (Suc 0) i probs (int new_node_pick) (add_edge data new_node_pick i) rest)"
  by (simp add: numeral_2_eq_2)

lemma class2_run_rest: "gen_class2 (class2_draws @ rest) = Inr (class2_example, rest)"
  by (simp add: gen_class2_def class2_draws_def class2_example_def range_2_20 class2_step_run
      in_support_class2 rounds_def class2_picks_1 class2_picks_2
      init_graph_def add_edge_def add_node_def)

lemma class2_run: "gen_class2 class2_draws = Inr (class2_example, [])"
  using class2_run_rest[of "[]"] by simp

lemma both_directions_snoc: "both_directions ps @ [(p, i), (i, p)] = both_directions (ps @ [(p, i)])"
  by (simp add: both_directions_def)

lemma class1_loop_pairs:
  "class1_loop todo d ds = Inr (d', rest) \<Longrightarrow> edge_index d = both_directions ps \<Longrightarrow>
     \<exists>qs. length qs = length ps + length todo \<and> edge_index d' = both_directions qs"
proof (induction todo arbitrary: d ds ps)
  case Nil
  then show ?case by auto
next
  case (Cons i todo)
  from Cons.prems(1) obtain d1 r1 where
    s: "class1_step i d ds = Inr (d1, r1)" and l: "class1_loop todo d1 r1 = Inr (d', rest)"
    by (auto split: sum.splits)
  from s obtain p where "edge_index d1 = edge_index d @ [(p, i), (i, p)]"
    by (auto elim!: class1_step_Inr)
  then have "edge_index d1 = both_directions (ps @ [(p, i)])"
    using Cons.prems(2) by (simp add: both_directions_snoc)
  from Cons.IH[OF l this] show ?case by auto
qed

lemma class2_loop_pairs:
  "class2_loop todo d ds = Inr (d', rest) \<Longrightarrow> edge_index d = both_directions ps \<Longrightarrow>
     \<exists>qs. length qs = length ps + sum_list (map rounds todo) \<and> edge_index d' = both_directions qs"
proof (induction todo arbitrary: d ds ps)
  case Nil
  then show ?case by auto
next
  case (Cons i todo)
  from Cons.prems(1) obtain d1 r1 where
    s: "class2_step i d ds = Inr (d1, r1)" and l: "class2_loop todo d1 r1 = Inr (d', rest)"
    by (auto split: sum.splits)
  from s have "\<exists>qs. length qs = length ps + rounds i \<and> edge_index d1 = both_directions qs"
  proof (cases rule: class2_step_Inr)
    case (1 p)
    then have "edge_index d1 = both_directions (ps @ [(p, i)])"
      using Cons.prems(2) by (simp add: both_directions_def)
    with 1 show ?thesis by (intro exI[of _ "ps @ [(p, i)]"]) (simp add: rounds_def)
  next
    case (2 p q)
    then have "edge_index d1 = both_directions (ps @ [(p, i), (q, i)])"
      using Cons.prems(2) by (simp add: both_directions_def)
    with 2 show ?thesis by (intro exI[of _ "ps @ [(p, i), (q, i)]"]) (simp add: rounds_def)
  qed
  then obtain qs where qs: "length qs = length ps + rounds i" "edge_index d1 = both_directions qs"
    by blast
  from Cons.IH[OF l qs(2)] obtain qs' where
    "length qs' = length qs + sum_list (map rounds todo)" "edge_index d' = both_directions qs'"
    by blast
  with qs(1) show ?case by (intro exI[of _ qs']) simp
qed

lemma init_pairs: "edge_index (init_graph l) = both_directions [(0, 1)]"
  by (simp add: init_graph_def both_directions_def)

lemma class1_example_sizes:
  "length (x class1_example) = 20" "length (edge_index class1_example) = 38" "y class1_example = [[0]]"
  by (simp_all add: class1_example_def)

lemma class2_example_sizes:
  "length (x class2_example) = 20" "length (edge_index class2_example) = 46" "y class2_example = [[1]]"
  by (simp_all add: class2_example_def)

lemma gen_class1_inv: "gen_class1 draws = Inr (g, rest) \<Longrightarrow> graph_inv 20 g"
  unfolding gen_class1_def by (erule class1_loop_inv) (simp_all add: graph_inv_init)

lemma gen_class2_inv: "gen_class2 draws = Inr (g, rest) \<Longrightarrow> graph_inv 20 g"
  unfolding gen_class2_def by (erule class2_loop_inv) (simp_all add: graph_inv_init)

lemma sum_list_degrees_ge:
  "(\<forall>u<n. 0 < f u) \<Longrightarrow> n \<le> sum_list (map f [0..<n])" for f :: "nat \<Rightarrow> nat"
proof (induction n)
  case 0
  then show ?case by simp
next
  case (Suc n)
  then have "n \<le> sum_list (map f [0..<n])" "0 < f n" by simp_all
  then show ?case by simp
qed

lemma graph_inv_sum_deg: "graph_inv i d \<Longrightarrow> i \<le> class1_sum_deg i (add_node d)"
  by (simp add: class1_sum_deg_def graph_inv_def sum_list_degrees_ge)

lemma class1_step_no_ValueError: "graph_inv i d \<Longrightarrow> 0 < i \<Longrightarrow> class1_step i d ds \<noteq> Inl ValueError"
  using graph_inv_sum_deg[of i d]
  by (auto simp: class1_step_def Let_def split: list.splits)

lemma class1_loop_no_ValueError:
  "graph_inv a d \<Longrightarrow> 0 < a \<Longrightarrow> a \<le> b \<Longrightarrow> class1_loop [a..<b] d ds \<noteq> Inl ValueError"
proof (induction "b - a" arbitrary: a d ds)
  case 0
  then show ?case by simp
next
  case (Suc k)
  then have ab: "a < b" and upt: "[a..<b] = a # [Suc a..<b]" by (auto simp: upt_conv_Cons)
  show ?case
  proof (cases "class1_step a d ds")
    case (Inl e)
    with class1_step_no_ValueError[OF Suc.prems(1,2), of ds] show ?thesis by (simp add: upt)
  next
    case (Inr pr)
    obtain d1 r1 where pr: "pr = (d1, r1)" by (cases pr)
    with Inr have "graph_inv (Suc a) d1" using Suc.prems(1) by (auto intro: class1_step_inv)
    with Suc.hyps(1)[of "Suc a" d1 r1] Suc.hyps(2) ab Inr pr show ?thesis by (simp add: upt)
  qed
qed

lemma sample_new_error: "sample_new probs node_pick ds = Inl e \<Longrightarrow> e = NotARun"
  by (induction probs node_pick ds rule: sample_new.induct) (auto split: if_splits)

lemma class2_picks_error: "class2_picks n i probs node_pick d ds = Inl e \<Longrightarrow> e = NotARun"
  by (induction n arbitrary: node_pick d ds) (auto split: sum.splits dest: sample_new_error)

lemma class2_step_no_ValueError: "0 < i \<Longrightarrow> class2_step i d ds \<noteq> Inl ValueError"
  using class2_picks_error[of "rounds i" i "class2_probs i (add_node d)" "- 1" "add_node d" ds ValueError]
  by (auto simp: class2_step_run)

lemma class2_loop_no_ValueError:
  "0 < a \<Longrightarrow> class2_loop [a..<b] d ds \<noteq> Inl ValueError"
proof (induction "b - a" arbitrary: a d ds)
  case 0
  then show ?case by simp
next
  case (Suc k)
  then have ab: "a < b" and upt: "[a..<b] = a # [Suc a..<b]" by (auto simp: upt_conv_Cons)
  show ?case
  proof (cases "class2_step a d ds")
    case (Inl e)
    with class2_step_no_ValueError[OF Suc.prems(1), of d ds] show ?thesis by (simp add: upt)
  next
    case (Inr pr)
    obtain d1 r1 where pr: "pr = (d1, r1)" by (cases pr)
    with Suc.hyps(1)[of "Suc a" d1 r1] Suc.hyps(2) ab Inr show ?thesis by (simp add: upt)
  qed
qed

lemma class1_loop_returns:
  "graph_inv a d \<Longrightarrow> length ds = b - a \<Longrightarrow> admissible1 a ds \<Longrightarrow>
     \<exists>d'. class1_loop [a..<b] d (ds @ rest) = Inr (d', rest)"
proof (induction ds arbitrary: a d)
  case Nil
  then show ?case by simp
next
  case (Cons p ps)
  then have ab: "a < b" and upt: "[a..<b] = a # [Suc a..<b]" and p: "p < a"
    by (auto simp: upt_conv_Cons)
  from Cons.prems(1) p have "0 < degree d p" by (simp add: graph_inv_def)
  with p have s: "class1_step a d (p # ps @ rest) = Inr (add_edge (add_node d) p a, ps @ rest)"
    by (simp add: class1_step_run)
  then have "graph_inv (Suc a) (add_edge (add_node d) p a)"
    using Cons.prems(1) by (rule class1_step_inv)
  moreover have "length ps = b - Suc a" "admissible1 (Suc a) ps" using Cons.prems(2,3) by auto
  ultimately obtain d' where
    "class1_loop [Suc a..<b] (add_edge (add_node d) p a) (ps @ rest) = Inr (d', rest)"
    using Cons.IH by blast
  with s show ?case by (simp add: upt)
qed

lemma class2_step_returns:
  assumes "0 < i" "length ps = rounds i" "distinct ps" "list_all (\<lambda>p. p < i) ps"
  shows "\<exists>d'. class2_step i d (ps @ rest) = Inr (d', rest)"
proof (cases "i mod 5 = 4")
  case False
  with assms obtain p where "ps = [p]" "p < i"
    by (cases ps) (auto simp: rounds_def)
  with False assms(1) show ?thesis
    by (simp add: class2_step_run rounds_def class2_picks_1 in_support_class2)
next
  case True
  with assms obtain p q where "ps = [p, q]" "p < i" "q < i" "p \<noteq> q"
    by (cases ps; cases "tl ps") (auto simp: rounds_def)
  with True assms(1) show ?thesis
    by (simp add: class2_step_run rounds_def class2_picks_1 class2_picks_2 in_support_class2)
qed

lemma class2_loop_returns:
  "0 < a \<Longrightarrow> length pss = b - a \<Longrightarrow> admissible2 a pss \<Longrightarrow>
     \<exists>d'. class2_loop [a..<b] d (concat pss @ rest) = Inr (d', rest)"
proof (induction pss arbitrary: a d)
  case Nil
  then show ?case by simp
next
  case (Cons ps pss)
  then have ab: "a < b" and upt: "[a..<b] = a # [Suc a..<b]" by (auto simp: upt_conv_Cons)
  from Cons.prems have "length ps = rounds a" "distinct ps" "list_all (\<lambda>p. p < a) ps" by simp_all
  from class2_step_returns[OF Cons.prems(1) this, of d "concat pss @ rest"] obtain d1 where
    s: "class2_step a d (ps @ concat pss @ rest) = Inr (d1, concat pss @ rest)" by blast
  have "0 < Suc a" "length pss = b - Suc a" "admissible2 (Suc a) pss" using Cons.prems by auto
  from Cons.IH[OF this, of d1] obtain d' where
    "class2_loop [Suc a..<b] d1 (concat pss @ rest) = Inr (d', rest)" by blast
  with s show ?case by (simp add: upt)
qed

lemma gen_class1_returns:
  "length ds = 18 \<Longrightarrow> admissible1 2 ds \<Longrightarrow> \<exists>g. gen_class1 (ds @ rest) = Inr (g, rest)"
  unfolding gen_class1_def by (rule class1_loop_returns) (simp_all add: graph_inv_init)

lemma gen_class2_returns:
  "length pss = 18 \<Longrightarrow> admissible2 2 pss \<Longrightarrow> \<exists>g. gen_class2 (concat pss @ rest) = Inr (g, rest)"
  unfolding gen_class2_def by (rule class2_loop_returns) simp_all

lemma class1_draws_admissible: "length class1_draws = 18 \<and> admissible1 2 class1_draws"
  by (simp add: class1_draws_def)

lemma class2_targets_admissible: "length class2_targets = 18 \<and> admissible2 2 class2_targets"
  by (simp add: class2_targets_def rounds_def)

section \<open>Properties of the conversion and the readers\<close>

lemma set_scan_row:
  "set (scan_row i j r) = {(i, j + k) | k. k < length r \<and> r ! k \<noteq> 0}"
proof (induction r arbitrary: j)
  case Nil
  then show ?case by simp
next
  case (Cons v vs)
  have "{(i, j + k) | k. k < length (v # vs) \<and> (v # vs) ! k \<noteq> 0} =
        (if v \<noteq> 0 then {(i, j)} else {}) \<union> {(i, Suc j + k) | k. k < length vs \<and> vs ! k \<noteq> 0}"
    (is "?L = ?R")
  proof (intro set_eqI iffI)
    fix e assume "e \<in> ?L"
    then obtain k where k: "e = (i, j + k)" "k < length (v # vs)" "(v # vs) ! k \<noteq> 0" by blast
    then show "e \<in> ?R" by (cases k) auto
  next
    fix e assume "e \<in> ?R"
    then consider "v \<noteq> 0" "e = (i, j)"
      | k where "e = (i, Suc j + k)" "k < length vs" "vs ! k \<noteq> 0"
      by (auto split: if_splits)
    then show "e \<in> ?L"
    proof cases
      case 1
      then show ?thesis by (intro CollectI exI[of _ 0]) simp
    next
      case (2 k)
      then show ?thesis by (intro CollectI exI[of _ "Suc k"]) simp
    qed
  qed
  with Cons.IH[of "Suc j"] show ?case by auto
qed

lemma set_scan_rows:
  "set (scan_rows i M) = {(i + a, b) | a b. a < length M \<and> b < length (M ! a) \<and> M ! a ! b \<noteq> 0}"
proof (induction M arbitrary: i)
  case Nil
  then show ?case by simp
next
  case (Cons r rs)
  have "{(i + a, b) | a b. a < length (r # rs) \<and> b < length ((r # rs) ! a) \<and> (r # rs) ! a ! b \<noteq> 0} =
        {(i, b) | b. b < length r \<and> r ! b \<noteq> 0} \<union>
        {(Suc i + a, b) | a b. a < length rs \<and> b < length (rs ! a) \<and> rs ! a ! b \<noteq> 0}"
    (is "?L = ?R")
  proof (intro set_eqI iffI)
    fix e assume "e \<in> ?L"
    then obtain a b where ab: "e = (i + a, b)" "a < length (r # rs)" "b < length ((r # rs) ! a)"
      "(r # rs) ! a ! b \<noteq> 0" by blast
    then show "e \<in> ?R" by (cases a) auto
  next
    fix e assume "e \<in> ?R"
    then consider b where "e = (i, b)" "b < length r" "r ! b \<noteq> 0"
      | a b where "e = (Suc i + a, b)" "a < length rs" "b < length (rs ! a)" "rs ! a ! b \<noteq> 0"
      by blast
    then show "e \<in> ?L"
    proof cases
      case (1 b)
      then show ?thesis by (intro CollectI exI[of _ 0] exI[of _ b]) simp
    next
      case (2 a b)
      then show ?thesis by (intro CollectI exI[of _ "Suc a"] exI[of _ b]) simp
    qed
  qed
  with Cons.IH[of "Suc i"] show ?case by (simp add: set_scan_row)
qed

lemma length_scan_row: "length (scan_row i j r) = length (filter (\<lambda>v. v \<noteq> 0) r)"
  by (induction r arbitrary: j) auto

lemma length_scan_rows: "length (scan_rows i M) = count_nonzero M"
  by (induction M arbitrary: i) (auto simp: count_nonzero_def length_scan_row)

lemma sorted_scan_row: "sorted_wrt row_major_less (scan_row i j r)"
  by (induction r arbitrary: j) (auto simp: set_scan_row row_major_less_def)

lemma sorted_scan_rows: "sorted_wrt row_major_less (scan_rows i M)"
  by (induction M arbitrary: i)
    (auto simp: sorted_wrt_append sorted_scan_row set_scan_row set_scan_rows row_major_less_def)

lemma scan_row_zero: "(\<forall>v\<in>set r. v = 0) \<Longrightarrow> scan_row i j r = []"
  by (induction r arbitrary: j) auto

lemma scan_rows_zero: "(\<forall>r\<in>set M. \<forall>v\<in>set r. v = 0) \<Longrightarrow> scan_rows i M = []"
  by (induction M arbitrary: i) (auto simp: scan_row_zero)

lemma ba2motif_loop_result:
  "ba2motif_loop raw todo acc =
     (if \<forall>g\<in>set todo. g < length (node_features raw) \<and> g < length (graph_labels raw)
      then Inr (acc @ map (ba2motif_record raw) todo) else Inl IndexError)"
  by (induction todo arbitrary: acc) (auto simp: not_le)

lemma set_where_from: "set (where_from j v) = {j + k | k. k < length v \<and> v ! k \<noteq> 0}"
proof (induction v arbitrary: j)
  case Nil
  then show ?case by simp
next
  case (Cons a v)
  have "{j + k | k. k < length (a # v) \<and> (a # v) ! k \<noteq> 0} =
        (if a \<noteq> 0 then {j} else {}) \<union> {Suc j + k | k. k < length v \<and> v ! k \<noteq> 0}"
    (is "?L = ?R")
  proof (intro set_eqI iffI)
    fix e assume "e \<in> ?L"
    then obtain k where "e = j + k" "k < length (a # v)" "(a # v) ! k \<noteq> 0" by blast
    then show "e \<in> ?R" by (cases k) auto
  next
    fix e assume "e \<in> ?R"
    then consider "a \<noteq> 0" "e = j" | k where "e = Suc j + k" "k < length v" "v ! k \<noteq> 0"
      by (auto split: if_splits)
    then show "e \<in> ?L"
    proof cases
      case 1
      then show ?thesis by (intro CollectI exI[of _ 0]) simp
    next
      case (2 k)
      then show ?thesis by (intro CollectI exI[of _ "Suc k"]) simp
    qed
  qed
  with Cons.IH[of "Suc j"] show ?case by auto
qed

lemma where_from_zeros: "where_from j (replicate n 0) = []"
  by (induction n arbitrary: j) auto

lemma where_from_one_hot:
  "c \<noteq> 0 \<Longrightarrow> where_from j (replicate a 0 @ [c] @ replicate b 0) = [j + a]"
  by (induction a arbitrary: j) (auto simp: where_from_zeros)

lemma sorted_where_from: "sorted_wrt (<) (where_from j v)"
  by (induction v arbitrary: j) (auto simp: set_where_from)

lemma ba2motif_two_result:
  "read_ba2motif_data ba2motif_two =
     Inr [\<lparr> x = [[1], [1]], edge_index = [(0, 1), (1, 0)], y = [1],
            train_mask = None, val_mask = None, test_mask = None \<rparr>,
          \<lparr> x = [[1], [1]], edge_index = [], y = [0],
            train_mask = None, val_mask = None, test_mask = None \<rparr>]"
  by (simp add: read_ba2motif_data_def ba2motif_two_def ba2motif_record_def dense_to_sparse_def
      np_where_0_def upt_conv_Cons)

lemma where_from_all_zero: "(\<forall>v\<in>set r. v = 0) \<Longrightarrow> where_from j r = []"
  by (induction r arbitrary: j) auto

lemma broadcast_dim_same [simp]: "broadcast_dim n n = Some n"
  by (simp add: broadcast_dim_def)

lemma broadcast_error: "broadcast f a b = Inl e \<Longrightarrow> e = ValueError"
  by (auto simp: broadcast_def split: option.splits)

lemma tabulate2_shape [simp]: "nrows (tabulate2 c r f) = r" "ncols (tabulate2 c r f) = c"
  by (simp_all add: tabulate2_def nrows_def)

lemma cell_tabulate2: "i < r \<Longrightarrow> j < c \<Longrightarrow> cell (tabulate2 c r f) i j = f i j"
  by (auto simp: cell_def nrows_def tabulate2_def)

lemma tabulate2_cong:
  "(\<And>i j. i < r \<Longrightarrow> j < c \<Longrightarrow> f i j = g i j) \<Longrightarrow> tabulate2 c r f = tabulate2 c r g"
  by (simp add: tabulate2_def)

lemma broadcast_tabulate2:
  "broadcast h (tabulate2 c r f) (tabulate2 c r g) = Inr (tabulate2 c r (\<lambda>i j. h (f i j) (g i j)))"
proof -
  have "\<lparr> ncols = c, rows = map (\<lambda>i. map (\<lambda>j. h (cell (tabulate2 c r f) i j)
          (cell (tabulate2 c r g) i j)) [0..<c]) [0..<r] \<rparr> =
        tabulate2 c r (\<lambda>i j. h (f i j) (g i j))"
    by (simp add: tabulate2_def[of c r "\<lambda>i j. h (f i j) (g i j)"] cell_tabulate2)
  then show ?thesis by (simp add: broadcast_def)
qed

lemma ndarray_tabulate2:
  assumes "is_ndarray a"
  shows "a = tabulate2 (ncols a) (nrows a) (\<lambda>i j. rows a ! i ! j)"
proof -
  have "rows a = map (\<lambda>i. map (\<lambda>j. rows a ! i ! j) [0..<ncols a]) [0..<nrows a]"
  proof (rule nth_equalityI)
    show "length (rows a) = length (map (\<lambda>i. map (\<lambda>j. rows a ! i ! j) [0..<ncols a]) [0..<nrows a])"
      by (simp add: nrows_def)
  next
    fix i assume i: "i < length (rows a)"
    with assms have "length (rows a ! i) = ncols a" by (simp add: is_ndarray_def list_all_length)
    then have "rows a ! i = map (\<lambda>j. rows a ! i ! j) [0..<ncols a]"
      by (intro nth_equalityI) simp_all
    with i show "rows a ! i = map (\<lambda>i. map (\<lambda>j. rows a ! i ! j) [0..<ncols a]) [0..<nrows a] ! i"
      by (simp add: nrows_def)
  qed
  then show ?thesis by (simp add: tabulate2_def)
qed

lemma broadcast_mask:
  assumes "length msk = r"
  shows "broadcast (*) (reshape_column msk) (tabulate2 c r g) =
     Inr (tabulate2 c r (\<lambda>i j. bit_of (msk ! i) * g i j))"
proof -
  have "cell (reshape_column msk) i j = bit_of (msk ! i)" if "i < r" for i j
    using that assms by (auto simp: cell_def nrows_def reshape_column_def)
  then have "\<lparr> ncols = c, rows = map (\<lambda>i. map (\<lambda>j. cell (reshape_column msk) i j *
          cell (tabulate2 c r g) i j) [0..<c]) [0..<r] \<rparr> =
        tabulate2 c r (\<lambda>i j. bit_of (msk ! i) * g i j)"
    by (simp add: tabulate2_def[of c r "\<lambda>i j. bit_of (msk ! i) * g i j"] cell_tabulate2)
  moreover have "nrows (reshape_column msk) = r" "ncols (reshape_column msk) = 1"
    using assms by (simp_all add: nrows_def reshape_column_def)
  ultimately show ?thesis by (simp add: broadcast_def broadcast_dim_def)
qed

lemma read_syn_data_error: "read_syn_data raw = Inl e \<Longrightarrow> e = ValueError"
  by (auto simp: read_syn_data_def split: sum.splits dest: broadcast_error)

lemma read_syn_data_bad_rows:
  assumes "length (train_mask_raw raw) \<noteq> nrows (y_train raw)" "length (train_mask_raw raw) \<noteq> 1"
    "nrows (y_train raw) \<noteq> 1"
  shows "read_syn_data raw = Inl ValueError"
proof -
  have "broadcast (*) (reshape_column (train_mask_raw raw)) (y_train raw) = Inl ValueError"
    using assms by (simp add: broadcast_def broadcast_dim_def nrows_def reshape_column_def)
  then show ?thesis by (simp add: read_syn_data_def)
qed

lemma read_syn_data_format:
  assumes "syn_shapes_ok raw"
  shows "read_syn_data raw =
     Inr \<lparr> x = features raw, edge_index = dense_to_sparse (adj raw),
           y = concat (map (\<lambda>n. np_where_0 (map sint (weighted_row raw n)))
                 [0..<length (train_mask_raw raw)]),
           train_mask = Some (train_mask_raw raw), val_mask = Some (val_mask_raw raw),
           test_mask = Some (test_mask_raw raw) \<rparr>"
proof -
  let ?V = "length (train_mask_raw raw)" and ?C = "ncols (y_train raw)"
  from assms have len: "length (val_mask_raw raw) = ?V" "length (test_mask_raw raw) = ?V"
    and yt: "y_train raw = tabulate2 ?C ?V (\<lambda>i j. rows (y_train raw) ! i ! j)"
    and yv: "y_val raw = tabulate2 ?C ?V (\<lambda>i j. rows (y_val raw) ! i ! j)"
    and ye: "y_test raw = tabulate2 ?C ?V (\<lambda>i j. rows (y_test raw) ! i ! j)"
    using ndarray_tabulate2[of "y_train raw"] ndarray_tabulate2[of "y_val raw"]
      ndarray_tabulate2[of "y_test raw"]
    by (simp_all add: syn_shapes_ok_def Let_def)
  have t1: "broadcast (*) (reshape_column (train_mask_raw raw)) (y_train raw) =
      Inr (tabulate2 ?C ?V (\<lambda>i j. bit_of (train_mask_raw raw ! i) * rows (y_train raw) ! i ! j))"
    by (subst yt) (simp add: broadcast_mask)
  have t2: "broadcast (*) (reshape_column (val_mask_raw raw)) (y_val raw) =
      Inr (tabulate2 ?C ?V (\<lambda>i j. bit_of (val_mask_raw raw ! i) * rows (y_val raw) ! i ! j))"
    by (subst yv) (simp add: broadcast_mask len)
  have t3: "broadcast (*) (reshape_column (test_mask_raw raw)) (y_test raw) =
      Inr (tabulate2 ?C ?V (\<lambda>i j. bit_of (test_mask_raw raw ! i) * rows (y_test raw) ! i ! j))"
    by (subst ye) (simp add: broadcast_mask len)
  have r: "map (map sint) (rows (tabulate2 ?C ?V (\<lambda>i j.
        bit_of (train_mask_raw raw ! i) * rows (y_train raw) ! i ! j +
        bit_of (val_mask_raw raw ! i) * rows (y_val raw) ! i ! j +
        bit_of (test_mask_raw raw ! i) * rows (y_test raw) ! i ! j))) =
      map (\<lambda>n. map sint (weighted_row raw n)) [0..<?V]"
    by (simp add: tabulate2_def weighted_row_def)
  show ?thesis
    unfolding read_syn_data_def t1 t2 t3
    by (simp add: broadcast_tabulate2 r np_where_1_def comp_def)
qed

lemma weighted_row_one_mask:
  assumes "syn_shapes_ok raw" "n < length (train_mask_raw raw)" "masks_on raw n = 1"
  shows "weighted_row raw n = designated_row raw n"
proof -
  from assms(1,2) have l: "length (rows (y_train raw) ! n) = ncols (y_train raw)"
    "length (rows (y_val raw) ! n) = ncols (y_train raw)"
    "length (rows (y_test raw) ! n) = ncols (y_train raw)"
    by (simp_all add: syn_shapes_ok_def Let_def is_ndarray_def list_all_length nrows_def)
  have "map (\<lambda>j. r ! j) [0..<ncols (y_train raw)] = r" if "length r = ncols (y_train raw)"
    for r :: "64 word list"
    using that map_nth[of r] by simp
  with l assms(3) show ?thesis
    by (auto simp: weighted_row_def designated_row_def masks_on_def bit_of_def split: if_splits)
qed

lemma weighted_row_no_mask:
  assumes "masks_on raw n = 0"
  shows "np_where_0 (map sint (weighted_row raw n)) = []"
  using assms
  by (auto simp: weighted_row_def masks_on_def bit_of_def np_where_0_def
      intro!: where_from_all_zero split: if_splits)

lemma syn_unmasked_result:
  "read_syn_data syn_unmasked =
     Inr \<lparr> x = [[1], [1]], edge_index = [(0, 1), (1, 0)], y = [1],
           train_mask = Some [True, False], val_mask = Some [False, False],
           test_mask = Some [False, False] \<rparr>"
proof -
  have "syn_shapes_ok syn_unmasked"
    by (simp add: syn_shapes_ok_def syn_unmasked_def is_ndarray_def nrows_def)
  from read_syn_data_format[OF this] show ?thesis
    by (simp add: syn_unmasked_def weighted_row_def bit_of_def dense_to_sparse_def np_where_0_def
        upt_conv_Cons)
qed

lemma read_syn_data_single_row:
  "read_syn_data syn_single_row =
     Inr \<lparr> x = [[1], [1]], edge_index = [(0, 1), (1, 0)], y = [1, 1],
           train_mask = Some [True, True], val_mask = Some [False, False],
           test_mask = Some [False, False] \<rparr>"
  by (simp add: read_syn_data_def syn_single_row_def syn_unmasked_def broadcast_def
      broadcast_dim_def cell_def nrows_def reshape_column_def bit_of_def upt_conv_Cons
      dense_to_sparse_def np_where_1_def np_where_0_def)

lemma shift_edges_zero: "shift_edges 0 es = es"
  by (induction es) (auto simp: shift_edges_def)

lemma length_shift_edges: "length (shift_edges off es) = length es"
  by (simp add: shift_edges_def)

lemma tiles_snoc: "tiles s (rs @ [r]) n \<longleftrightarrow> tiles s rs (fst r) \<and> fst r \<le> snd r \<and> snd r = n"
  by (induction rs arbitrary: s) auto

lemma tiles_bounds:
  "tiles s rs n \<Longrightarrow> s \<le> n \<and> (\<forall>k<length rs. s \<le> fst (rs ! k) \<and> fst (rs ! k) \<le> snd (rs ! k) \<and> snd (rs ! k) \<le> n)"
proof (induction rs arbitrary: s)
  case Nil
  then show ?case by simp
next
  case (Cons r rs)
  then have t: "tiles (snd r) rs n" and r: "fst r = s" "fst r \<le> snd r" by simp_all
  from Cons.IH[OF t] have b: "snd r \<le> n"
    "\<forall>k<length rs. snd r \<le> fst (rs ! k) \<and> fst (rs ! k) \<le> snd (rs ! k) \<and> snd (rs ! k) \<le> n" by simp_all
  show ?case
  proof (intro conjI allI impI)
    show "s \<le> n" using r b(1) by simp
  next
    fix k assume "k < length (r # rs)"
    then show "s \<le> fst ((r # rs) ! k)" "fst ((r # rs) ! k) \<le> snd ((r # rs) ! k)" "snd ((r # rs) ! k) \<le> n"
      using r b by (cases k; fastforce)+
  qed
qed

lemma tiles_cover:
  "tiles s rs n \<Longrightarrow> s \<le> p \<Longrightarrow> p < n \<Longrightarrow> \<exists>k<length rs. fst (rs ! k) \<le> p \<and> p < snd (rs ! k)"
proof (induction rs arbitrary: s)
  case Nil
  then show ?case by simp
next
  case (Cons r rs)
  then have t: "tiles (snd r) rs n" and r: "fst r = s" by simp_all
  show ?case
  proof (cases "p < snd r")
    case True
    with r Cons.prems(2) show ?thesis by (intro exI[of _ 0]) simp
  next
    case False
    with Cons.IH[OF t] Cons.prems(3) obtain k where "k < length rs" "fst (rs ! k) \<le> p" "p < snd (rs ! k)"
      by auto
    then show ?thesis by (intro exI[of _ "Suc k"]) simp
  qed
qed

lemma tiles_disjoint:
  "tiles s rs n \<Longrightarrow> j < length rs \<Longrightarrow> k < length rs \<Longrightarrow>
     fst (rs ! j) \<le> p \<Longrightarrow> p < snd (rs ! j) \<Longrightarrow> fst (rs ! k) \<le> p \<Longrightarrow> p < snd (rs ! k) \<Longrightarrow> j = k"
proof (induction rs arbitrary: s j k)
  case Nil
  then show ?case by simp
next
  case (Cons r rs)
  then have t: "tiles (snd r) rs n" by simp
  from tiles_bounds[OF t] have b: "\<forall>i<length rs. snd r \<le> fst (rs ! i)" by simp
  show ?case
  proof (cases j; cases k)
    fix j' k' assume jk: "j = Suc j'" "k = Suc k'"
    with Cons.prems have "j' = k'" by (intro Cons.IH[OF t]) simp_all
    with jk show ?thesis by simp
  next
    fix k' assume jk: "j = 0" "k = Suc k'"
    with Cons.prems b have "snd r \<le> fst (rs ! k')" by simp
    with jk Cons.prems show ?thesis by simp
  next
    fix j' assume jk: "j = Suc j'" "k = 0"
    with Cons.prems b have "snd r \<le> fst (rs ! j')" by simp
    with jk Cons.prems show ?thesis by simp
  qed simp
qed

lemma tiled_append_record: "tiled c \<Longrightarrow> tiled (append_record c d)"
  by (simp add: tiled_def append_record_def Let_def tiles_snoc shift_edges_def)

lemma tiled_collate_loop: "tiled c \<Longrightarrow> tiled (collate_loop c ds)"
  by (induction ds arbitrary: c) (simp_all add: tiled_append_record)

lemma collate_loop_extends:
  "\<exists>ex ee ey es. c_x (collate_loop c ds) = c_x c @ ex \<and>
     c_edge_index (collate_loop c ds) = c_edge_index c @ ee \<and>
     c_y (collate_loop c ds) = c_y c @ ey \<and>
     slices (collate_loop c ds) = slices c @ es \<and> length es = length ds"
proof (induction ds arbitrary: c)
  case Nil
  then show ?case by simp
next
  case (Cons d ds)
  from Cons.IH[of "append_record c d"] show ?case
    by (auto simp: append_record_def Let_def)
qed

lemma length_slices_collate_loop: "length (slices (collate_loop c ds)) = length (slices c) + length ds"
  using collate_loop_extends[of c ds] by auto

lemma collate_loop_arrays:
  "c_x (collate_loop c ds) = c_x c @ concat (map x ds) \<and>
   c_y (collate_loop c ds) = c_y c @ concat (map y ds)"
  by (induction ds arbitrary: c) (simp_all add: append_record_def Let_def)

lemma collate_loop_slice:
  "k < length ds \<Longrightarrow>
     (let r = collate_loop c ds; sl = slices r ! (length (slices c) + k) in
        slice_of (fst sl) (c_x r) = x (ds ! k) \<and>
        slice_of (fst (snd sl)) (c_edge_index r) =
          shift_edges (length (c_x c) + node_offset ds k) (edge_index (ds ! k)) \<and>
        slice_of (snd (snd sl)) (c_y r) = y (ds ! k))"
proof (induction ds arbitrary: c k)
  case Nil
  then show ?case by simp
next
  case (Cons d ds)
  let ?c = "append_record c d"
  show ?case
  proof (cases k)
    case 0
    from collate_loop_extends[of ?c ds] obtain ex ee ey es where
      e: "c_x (collate_loop ?c ds) = c_x ?c @ ex" "c_edge_index (collate_loop ?c ds) = c_edge_index ?c @ ee"
         "c_y (collate_loop ?c ds) = c_y ?c @ ey" "slices (collate_loop ?c ds) = slices ?c @ es"
      by blast
    have c: "c_x ?c = c_x c @ x d" "c_y ?c = c_y c @ y d"
      "c_edge_index ?c = c_edge_index c @ shift_edges (length (c_x c)) (edge_index d)"
      "slices ?c = slices c @
        [((length (c_x c), length (c_x c) + length (x d)),
          (length (c_edge_index c), length (c_edge_index c) + length (edge_index d)),
          (length (c_y c), length (c_y c) + length (y d)))]"
      by (simp_all add: append_record_def Let_def)
    have "slices (collate_loop ?c ds) ! length (slices c) =
        ((length (c_x c), length (c_x c) + length (x d)),
         (length (c_edge_index c), length (c_edge_index c) + length (edge_index d)),
         (length (c_y c), length (c_y c) + length (y d)))"
      unfolding e(4) c(4) by (simp add: nth_append)
    moreover have "length (shift_edges (length (c_x c)) (edge_index d)) = length (edge_index d)"
      by (simp add: shift_edges_def)
    ultimately show ?thesis
      by (simp add: Let_def 0 e(1,2,3) c(1,2,3) slice_of_def node_offset_def)
  next
    case (Suc k')
    with Cons.prems have k': "k' < length ds" by simp
    have "length (slices ?c) + k' = length (slices c) + k"
      "length (c_x ?c) + node_offset ds k' = length (c_x c) + node_offset (d # ds) k"
      by (simp_all add: append_record_def Let_def Suc node_offset_def)
    with Cons.IH[OF k', of ?c] Suc show ?thesis by (simp add: Let_def)
  qed
qed

lemma lower_names: "lower ''BA_shapes'' \<noteq> lower ''BA_2Motifs''"
  "lower ''ba_2motifs'' = lower ''BA_2Motifs''"
  by (simp_all add: lower_def lower_char_def)

lemma syn_masked_data:
  "read_syn_data syn_masked =
     Inr \<lparr> x = [[1], [1]], edge_index = [(0, 1), (1, 0)], y = [1, 0],
           train_mask = Some [True, False], val_mask = Some [False, False],
           test_mask = Some [False, True] \<rparr>"
proof -
  have "syn_shapes_ok syn_masked"
    by (simp add: syn_shapes_ok_def syn_masked_def syn_unmasked_def is_ndarray_def nrows_def)
  from read_syn_data_format[OF this] show ?thesis
    by (simp add: syn_masked_def syn_unmasked_def weighted_row_def bit_of_def dense_to_sparse_def
        np_where_0_def upt_conv_Cons)
qed

lemma is_class1_label: "is_class1 g \<Longrightarrow> y g = [[0]]"
proof -
  assume "is_class1 g"
  then obtain draws rest where "class1_loop [2..<20] (init_graph 0) draws = Inr (g, rest)"
    by (auto simp: is_class1_def gen_class1_def)
  from class1_loop_sizes[OF this] show ?thesis by (simp add: init_graph_def)
qed

lemma is_class2_label: "is_class2 g \<Longrightarrow> y g = [[1]]"
proof -
  assume "is_class2 g"
  then obtain draws rest where "class2_loop [2..<20] (init_graph 1) draws = Inr (g, rest)"
    by (auto simp: is_class2_def gen_class2_def)
  from class2_loop_sizes[OF this] show ?thesis by (simp add: init_graph_def)
qed

lemma alternating_labels:
  "alternating gs \<Longrightarrow> concat (map y gs) = concat (replicate (length gs div 2) [[0], [1]])"
  by (induction gs rule: alternating.induct) (simp_all add: is_class1_label is_class2_label)

lemma BA_LRP_loop_result:
  "BA_LRP_loop n acc draws = Inr (data_list, rest) \<Longrightarrow>
     \<exists>gs. data_list = acc @ gs \<and> length gs = 2 * n \<and> alternating gs"
proof (induction n arbitrary: acc draws)
  case 0
  then show ?case by simp
next
  case (Suc n)
  from Suc.prems obtain g1 r1 g2 r2 where
    g1: "gen_class1 draws = Inr (g1, r1)" and g2: "gen_class2 r1 = Inr (g2, r2)" and
    l: "BA_LRP_loop n (acc @ [g1, g2]) r2 = Inr (data_list, rest)"
    by (auto split: sum.splits)
  from Suc.IH[OF l] obtain gs where
    gs: "data_list = (acc @ [g1, g2]) @ gs" "length gs = 2 * n" "alternating gs" by blast
  have "is_class1 g1" "is_class2 g2" using g1 g2 by (auto simp: is_class1_def is_class2_def)
  with gs show ?case by (intro exI[of _ "g1 # g2 # gs"]) simp
qed

lemma BA_LRP_loop_returns:
  "admissible_runs runs \<Longrightarrow>
     \<exists>data_list. BA_LRP_loop (length runs) acc (run_draws runs @ rest) = Inr (data_list, rest)"
proof (induction runs arbitrary: acc)
  case Nil
  then show ?case by simp
next
  case (Cons r runs)
  then have r: "length (fst r) = 18" "admissible1 2 (fst r)" "length (snd r) = 18"
    "admissible2 2 (snd r)" and runs: "admissible_runs runs" by simp_all
  from gen_class1_returns[OF r(1,2)] obtain g1 where
    g1: "gen_class1 (fst r @ concat (snd r) @ run_draws runs @ rest) =
      Inr (g1, concat (snd r) @ run_draws runs @ rest)" by blast
  from gen_class2_returns[OF r(3,4)] obtain g2 where
    g2: "gen_class2 (concat (snd r) @ run_draws runs @ rest) = Inr (g2, run_draws runs @ rest)"
    by blast
  from Cons.IH[OF runs, of "acc @ [g1, g2]"] obtain data_list where
    "BA_LRP_loop (length runs) (acc @ [g1, g2]) (run_draws runs @ rest) = Inr (data_list, rest)"
    by blast
  with g1 g2 show ?case by simp
qed

lemma two_rounds_admissible: "length two_rounds = 2 \<and> admissible_runs two_rounds"
  using class1_draws_admissible class2_targets_admissible by (simp add: two_rounds_def)

lemma two_rounds_saved:
  "BA_LRP_process False 2 (class1_draws @ class2_draws @ class1_draws @ class2_draws) =
     Inr (Saved (collate [class1_example, class2_example, class1_example, class2_example]), [])"
  by (simp add: BA_LRP_process_def numeral_2_eq_2 class1_run_rest class2_run_rest class2_run)

lemma collate_arrays:
  "c_x (collate records) = concat (map x records)" "c_y (collate records) = concat (map y records)"
  using collate_loop_arrays[of empty_collated records]
  by (simp_all add: collate_def empty_collated_def)

lemma length_slices_collate: "length (slices (collate records)) = length records"
  by (simp add: collate_def length_slices_collate_loop empty_collated_def)

lemma collate_slice:
  assumes "k < length records"
  shows "slice_of (fst (slices (collate records) ! k)) (c_x (collate records)) = x (records ! k)"
    "slice_of (snd (snd (slices (collate records) ! k))) (c_y (collate records)) = y (records ! k)"
  using collate_loop_slice[OF assms, of empty_collated]
  by (simp_all add: collate_def Let_def empty_collated_def)

section \<open>Claims about the generators\<close>

text \<open>
  C1 (as amended). Every run of the class-1 generator yields a graph with exactly 20
  nodes and label 0 whose \<open>edge_index\<close> has exactly 38 directed entries, the two
  directions of 19 undirected edges: the initial edge and one per growth step 2..19.
  Every sequence of 18 draws, the draw of step i a node below i, is such a run.
\<close>

theorem gen_class1_shape:
  "(gen_class1 draws = Inr (g, rest) \<longrightarrow>
      length (x g) = 20 \<and> length (edge_index g) = 38 \<and>
      (\<exists>ps. length ps = 19 \<and> edge_index g = both_directions ps) \<and> y g = [[0]]) \<and>
   (length ds = 18 \<and> admissible1 2 ds \<longrightarrow> (\<exists>g'. gen_class1 (ds @ rest') = Inr (g', rest')))"
proof (rule conjI; rule impI)
  assume "gen_class1 draws = Inr (g, rest)"
  then have l: "class1_loop [2..<20] (init_graph 0) draws = Inr (g, rest)"
    by (simp add: gen_class1_def)
  have n: "length [(0::nat, 1::nat)] + length [2..<20::nat] = 19" by simp
  from class1_loop_sizes[OF l] have "length (x g) = 20" "length (edge_index g) = 38" "y g = [[0]]"
    by (simp_all add: init_graph_def)
  moreover from class1_loop_pairs[OF l init_pairs]
  have "\<exists>ps. length ps = 19 \<and> edge_index g = both_directions ps"
    unfolding n .
  ultimately show "length (x g) = 20 \<and> length (edge_index g) = 38 \<and>
      (\<exists>ps. length ps = 19 \<and> edge_index g = both_directions ps) \<and> y g = [[0]]"
    by simp
next
  assume "length ds = 18 \<and> admissible1 2 ds"
  then show "\<exists>g'. gen_class1 (ds @ rest') = Inr (g', rest')"
    by (simp add: gen_class1_returns)
qed

theorem gen_class1_shape_witness:
  "gen_class1 class1_draws = Inr (class1_example, []) \<and>
   length (x class1_example) = 20 \<and> length (edge_index class1_example) = 38 \<and>
   (\<exists>ps. length ps = 19 \<and> edge_index class1_example = both_directions ps) \<and>
   y class1_example = [[0]] \<and>
   length class1_draws = 18 \<and> admissible1 2 class1_draws \<and>
   (\<exists>g'. gen_class1 (class1_draws @ []) = Inr (g', []))"
  using gen_class1_shape[of class1_draws class1_example "[]" class1_draws "[]"] class1_run
    class1_draws_admissible
  by simp

text \<open>
  The claim as written asks for 40 directed entries (20 undirected edges); this run
  has 38.
\<close>

theorem gen_class1_40_entries_counterexample:
  "gen_class1 class1_draws = Inr (class1_example, []) \<and>
   length (edge_index class1_example) = 38 \<and> length (edge_index class1_example) \<noteq> 40"
  using class1_run by (simp add: class1_example_sizes)

text \<open>
  C2 (as amended). Every run of the class-2 generator yields a graph with 20 nodes and
  label 1 whose \<open>edge_index\<close> has exactly 46 directed entries, the two directions of 23
  undirected edges: the initial edge, one per growth step, and a second one at
  steps 4, 9, 14 and 19. A growth step with i mod 5 = 4 appends the edges to two
  distinct existing nodes, every other step the edge to one existing node. Every
  sequence of draws that gives each step as many distinct existing nodes as it has
  rounds is such a run.
\<close>

theorem gen_class2_shape:
  "(gen_class2 draws = Inr (g, rest) \<longrightarrow>
      length (x g) = 20 \<and> y g = [[1]] \<and> length (edge_index g) = 46 \<and>
      (\<exists>ps. length ps = 23 \<and> edge_index g = both_directions ps)) \<and>
   (class2_step i d ds = Inr (d', rest') \<longrightarrow>
      (if i mod 5 = 4
       then \<exists>p q. p < i \<and> q < i \<and> p \<noteq> q \<and>
              edge_index d' = edge_index d @ [(p, i), (i, p), (q, i), (i, q)]
       else \<exists>p. p < i \<and> edge_index d' = edge_index d @ [(p, i), (i, p)])) \<and>
   (length pss = 18 \<and> admissible2 2 pss \<longrightarrow>
      (\<exists>g'. gen_class2 (concat pss @ rest'') = Inr (g', rest'')))"
proof (intro conjI impI)
  assume "gen_class2 draws = Inr (g, rest)"
  then have l: "class2_loop [2..<20] (init_graph 1) draws = Inr (g, rest)"
    by (simp add: gen_class2_def)
  have n: "length [2..<20::nat] = 18" by simp
  from class2_loop_sizes[OF l] show "length (x g) = 20" "length (edge_index g) = 46" "y g = [[1]]"
    unfolding rounds_total n by (simp_all add: init_graph_def)
  from class2_loop_pairs[OF l init_pairs]
  show "\<exists>ps. length ps = 23 \<and> edge_index g = both_directions ps"
    unfolding rounds_total by (simp del: length_upt)
next
  assume "class2_step i d ds = Inr (d', rest')"
  then show "if i mod 5 = 4
       then \<exists>p q. p < i \<and> q < i \<and> p \<noteq> q \<and>
              edge_index d' = edge_index d @ [(p, i), (i, p), (q, i), (i, q)]
       else \<exists>p. p < i \<and> edge_index d' = edge_index d @ [(p, i), (i, p)]"
    by (cases rule: class2_step_Inr) auto
next
  assume "length pss = 18 \<and> admissible2 2 pss"
  then show "\<exists>g'. gen_class2 (concat pss @ rest'') = Inr (g', rest'')"
    by (simp add: gen_class2_returns)
qed

theorem gen_class2_shape_witness:
  "gen_class2 class2_draws = Inr (class2_example, []) \<and>
   length (x class2_example) = 20 \<and> y class2_example = [[1]] \<and>
   length (edge_index class2_example) = 46 \<and>
   (\<exists>ps. length ps = 23 \<and> edge_index class2_example = both_directions ps) \<and>
   class2_step 4 class2_example [2, 2, 0] =
     Inr (add_edge (add_edge (add_node class2_example) 2 4) 0 4, []) \<and>
   (\<exists>p q. p < 4 \<and> q < 4 \<and> p \<noteq> q \<and>
      edge_index (add_edge (add_edge (add_node class2_example) 2 4) 0 4) =
        edge_index class2_example @ [(p, 4), (4, p), (q, 4), (4, q)]) \<and>
   length class2_targets = 18 \<and> admissible2 2 class2_targets \<and>
   (\<exists>g'. gen_class2 (concat class2_targets @ []) = Inr (g', []))"
proof -
  have s: "class2_step 4 class2_example [2, 2, 0] =
      Inr (add_edge (add_edge (add_node class2_example) 2 4) 0 4, [])"
    by (simp add: class2_step_run in_support_class2 rounds_def class2_picks_2 class2_picks_1)
  from gen_class2_shape[of class2_draws class2_example "[]" 4 class2_example "[2, 2, 0]"
      "add_edge (add_edge (add_node class2_example) 2 4) 0 4" "[]" class2_targets "[]"]
    class2_run s class2_targets_admissible
  show ?thesis by simp
qed

text \<open>
  The claim as written asks for 44 directed entries (22 undirected edges); this run
  has 46.
\<close>

theorem gen_class2_44_entries_counterexample:
  "gen_class2 class2_draws = Inr (class2_example, []) \<and>
   length (edge_index class2_example) = 46 \<and> length (edge_index class2_example) \<noteq> 44"
  using class2_run by (simp add: class2_example_sizes)

text \<open>
  C9. Every graph either generator returns is connected, has every endpoint of
  \<open>edge_index\<close> below 20, a symmetric edge list, and every node of degree at least 1;
  and a growth step i keeps the edges it found and appends, for each target it
  sampled, which is a node below i, the edge in both directions.
\<close>

theorem generated_graph_connected:
  "(gen_class1 draws = Inr (g, rest) \<or> gen_class2 draws = Inr (g, rest) \<longrightarrow>
      connected 20 (edge_index g) \<and> endpoints_below 20 (edge_index g) \<and>
      symmetric (edge_index g) \<and> (\<forall>u<20. 1 \<le> degree g u)) \<and>
   (class1_step i d ds = Inr (d', rest') \<or> class2_step i d ds = Inr (d', rest') \<longrightarrow>
      (\<exists>ps. ps \<noteq> [] \<and> (\<forall>p\<in>set ps. p < i) \<and>
         edge_index d' = edge_index d @ both_directions (map (\<lambda>p. (p, i)) ps)))"
proof (rule conjI; rule impI)
  assume "gen_class1 draws = Inr (g, rest) \<or> gen_class2 draws = Inr (g, rest)"
  then have "graph_inv 20 g" using gen_class1_inv gen_class2_inv by blast
  then show "connected 20 (edge_index g) \<and> endpoints_below 20 (edge_index g) \<and>
      symmetric (edge_index g) \<and> (\<forall>u<20. 1 \<le> degree g u)"
    by (auto simp: graph_inv_def Suc_le_eq)
next
  assume "class1_step i d ds = Inr (d', rest') \<or> class2_step i d ds = Inr (d', rest')"
  then show "\<exists>ps. ps \<noteq> [] \<and> (\<forall>p\<in>set ps. p < i) \<and>
         edge_index d' = edge_index d @ both_directions (map (\<lambda>p. (p, i)) ps)"
  proof
    assume "class1_step i d ds = Inr (d', rest')"
    then obtain p where "p < i" "d' = add_edge (add_node d) p i"
      by (auto elim!: class1_step_Inr)
    then show ?thesis by (intro exI[of _ "[p]"]) (simp add: both_directions_def)
  next
    assume "class2_step i d ds = Inr (d', rest')"
    then show ?thesis
    proof (cases rule: class2_step_Inr)
      case (1 p)
      then show ?thesis by (intro exI[of _ "[p]"]) (simp add: both_directions_def)
    next
      case (2 p q)
      then show ?thesis by (intro exI[of _ "[p, q]"]) (simp add: both_directions_def)
    qed
  qed
qed

theorem generated_graph_connected_witness:
  "gen_class1 class1_draws = Inr (class1_example, []) \<and>
   connected 20 (edge_index class1_example) \<and> endpoints_below 20 (edge_index class1_example) \<and>
   symmetric (edge_index class1_example) \<and>
   gen_class2 class2_draws = Inr (class2_example, []) \<and>
   connected 20 (edge_index class2_example) \<and> endpoints_below 20 (edge_index class2_example) \<and>
   symmetric (edge_index class2_example) \<and>
   class1_step 2 (init_graph 0) [0] = Inr (add_edge (add_node (init_graph 0)) 0 2, []) \<and>
   (\<exists>ps. ps \<noteq> [] \<and>
      edge_index (add_edge (add_node (init_graph 0)) 0 2) =
        edge_index (init_graph 0) @ both_directions (map (\<lambda>p. (p, 2)) ps))"
proof -
  have s: "class1_step 2 (init_graph 0) [0] = Inr (add_edge (add_node (init_graph 0)) 0 2, [])"
    by (simp add: class1_step_run init_graph_def degree_def)
  from generated_graph_connected[of class1_draws class1_example "[]" 2 "init_graph 0" "[0]"
      "add_edge (add_node (init_graph 0)) 0 2" "[]"]
    generated_graph_connected[of class2_draws class2_example "[]" 2 "init_graph 0" "[0]"
      "add_edge (add_node (init_graph 0)) 0 2" "[]"] class1_run class2_run s
  show ?thesis by auto
qed

text \<open>
  C10. The sampling weights are well defined at every growth step. Class 1: in the
  state that step i finds (the initial graph grown by steps 2..i-1) the degree sum
  over the nodes 0..i-1 is at least 2, so the division by \<open>sum_deg\<close> is never by zero
  and the generator never fails with the ValueError of undefined probabilities.
  Class 2: for every state, \<open>degree + epsilon\<close> is positive, every reciprocal weight
  is positive, their sum is positive once there is a node, and the generator never
  fails with that ValueError either. Weights are real numbers here; rounding and
  overflow of floating point are outside the model.
\<close>

theorem sampling_weights_well_defined:
  "(class1_loop [2..<i] (init_graph 0) draws = Inr (d, rest) \<and> 2 \<le> i
      \<longrightarrow> 2 \<le> class1_sum_deg i (add_node d)) \<and>
   gen_class1 draws \<noteq> Inl ValueError \<and>
   0 < real (degree d' u) + epsilon \<and>
   (\<forall>r\<in>set (deg_reciprocal i d'). 0 < r) \<and>
   (0 < i \<longrightarrow> 0 < sum_list (deg_reciprocal i d')) \<and>
   gen_class2 draws \<noteq> Inl ValueError"
proof -
  have "2 \<le> class1_sum_deg i (add_node d)"
    if "class1_loop [2..<i] (init_graph 0) draws = Inr (d, rest)" "2 \<le> i"
  proof -
    from that have "graph_inv i d" by (auto intro: class1_loop_inv graph_inv_init)
    from graph_inv_sum_deg[OF this] that(2) show ?thesis by simp
  qed
  moreover have "gen_class1 draws \<noteq> Inl ValueError"
    unfolding gen_class1_def by (intro class1_loop_no_ValueError graph_inv_init) simp_all
  moreover have "gen_class2 draws \<noteq> Inl ValueError"
    unfolding gen_class2_def by (intro class2_loop_no_ValueError) simp
  moreover have "0 < real (degree d' u) + epsilon"
    using epsilon_pos by (intro add_nonneg_pos) simp_all
  ultimately show ?thesis
    by (auto simp: deg_reciprocal_pos sum_deg_reciprocal_pos)
qed

theorem sampling_weights_well_defined_witness:
  "class1_loop [2..<3] (init_graph 0) [0] = Inr (add_edge (add_node (init_graph 0)) 0 2, []) \<and>
   (2::nat) \<le> 3 \<and>
   2 \<le> class1_sum_deg 3 (add_node (add_edge (add_node (init_graph 0)) 0 2)) \<and>
   gen_class1 class1_draws \<noteq> Inl ValueError \<and>
   0 < real (degree (init_graph 1) 0) + epsilon \<and>
   deg_reciprocal 3 (init_graph 1) \<noteq> [] \<and>
   0 < hd (deg_reciprocal 3 (init_graph 1)) \<and>
   0 < sum_list (deg_reciprocal 3 (init_graph 1)) \<and>
   gen_class2 class1_draws \<noteq> Inl ValueError"
proof -
  have l: "class1_loop [2..<3] (init_graph 0) [0] = Inr (add_edge (add_node (init_graph 0)) 0 2, [])"
    by (simp add: upt_conv_Cons class1_step_run init_graph_def degree_def)
  have ne: "deg_reciprocal 3 (init_graph 1) \<noteq> []" by (simp add: deg_reciprocal_def)
  then have "hd (deg_reciprocal 3 (init_graph 1)) \<in> set (deg_reciprocal 3 (init_graph 1))"
    by simp
  with sampling_weights_well_defined[of 3 class1_draws "add_edge (add_node (init_graph 0)) 0 2"
      "[]" "init_graph 1" 0]
    sampling_weights_well_defined[of 3 "[0]" "add_edge (add_node (init_graph 0)) 0 2"
      "[]" "init_graph 1" 0] l ne
  show ?thesis by auto
qed

section \<open>Claims about the conversion and the readers\<close>

text \<open>
  C5. For every dense matrix M (square or not), the conversion emits the directed edge
  (i, j) exactly when cell (i, j) exists and is nonzero, in strictly increasing
  row-major order (so no edge twice), the number of edges is the number of nonzero
  cells, and an all-zero matrix gives the empty edge list.
\<close>

theorem dense_to_sparse_nonzero_cells:
  "((i, j) \<in> set (dense_to_sparse M) \<longleftrightarrow> i < length M \<and> j < length (M ! i) \<and> M ! i ! j \<noteq> 0) \<and>
   sorted_wrt row_major_less (dense_to_sparse M) \<and>
   length (dense_to_sparse M) = count_nonzero M \<and>
   ((\<forall>r\<in>set M. \<forall>v\<in>set r. v = 0) \<longrightarrow> dense_to_sparse M = [])"
  by (auto simp: dense_to_sparse_def set_scan_rows sorted_scan_rows length_scan_rows scan_rows_zero)

theorem dense_to_sparse_nonzero_cells_witness:
  "(1, 2) \<in> set (dense_to_sparse [[0, 1, 0], [1, 0, 2], [0, 0, 0 :: int]]) \<and>
   dense_to_sparse [[0, 1, 0], [1, 0, 2], [0, 0, 0 :: int]] = [(0, 1), (1, 0), (1, 2)] \<and>
   length (dense_to_sparse [[0, 1, 0], [1, 0, 2], [0, 0, 0 :: int]]) =
     count_nonzero [[0, 1, 0], [1, 0, 2], [0, 0, 0 :: int]] \<and>
   dense_to_sparse [[0, 0], [0, 0 :: int]] = []"
  using dense_to_sparse_nonzero_cells[of 1 2 "[[0, 1, 0], [1, 0, 2], [0, 0, 0 :: int]]"]
    dense_to_sparse_nonzero_cells[of 0 0 "[[0, 0], [0, 0 :: int]]"]
  by (simp add: dense_to_sparse_def)

text \<open>
  C3 (as amended). The multi-graph reader raises no MalformedInputError. With N the
  number of adjacency matrices: when \<open>node_features\<close> and \<open>graph_labels\<close> have at
  least N entries it returns the N records of the graphs 0..N-1 in input order, and
  when one of them has fewer it raises IndexError. The label of a record is the
  ascending list of the indices of the nonzero entries of its label vector: the one
  index for a one-hot vector, the empty list for an all-zero vector.
\<close>

theorem read_ba2motif_data_labels:
  "(length (dense_edges raw) \<le> length (node_features raw) \<and>
    length (dense_edges raw) \<le> length (graph_labels raw) \<longrightarrow>
      read_ba2motif_data raw = Inr (map (ba2motif_record raw) [0..<length (dense_edges raw)])) \<and>
   (length (node_features raw) < length (dense_edges raw) \<or>
    length (graph_labels raw) < length (dense_edges raw) \<longrightarrow>
      read_ba2motif_data raw = Inl IndexError) \<and>
   read_ba2motif_data raw \<noteq> Inl MalformedInputError \<and>
   y (ba2motif_record raw k) = np_where_0 (graph_labels raw ! k) \<and>
   set (np_where_0 v) = {j. j < length v \<and> v ! j \<noteq> 0} \<and>
   sorted_wrt (<) (np_where_0 v) \<and>
   (c \<noteq> 0 \<longrightarrow> np_where_0 (replicate a 0 @ [c] @ replicate b 0) = [a]) \<and>
   np_where_0 (replicate a 0) = []"
proof -
  have "read_ba2motif_data raw = Inr (map (ba2motif_record raw) [0..<length (dense_edges raw)])"
    if "length (dense_edges raw) \<le> length (node_features raw)"
       "length (dense_edges raw) \<le> length (graph_labels raw)"
    using that by (auto simp: read_ba2motif_data_def ba2motif_loop_result)
  moreover have "read_ba2motif_data raw = Inl IndexError"
    if "length (node_features raw) < length (dense_edges raw) \<or>
        length (graph_labels raw) < length (dense_edges raw)"
  proof -
    from that have "\<not> (\<forall>g\<in>set [0..<length (dense_edges raw)].
        g < length (node_features raw) \<and> g < length (graph_labels raw))"
      by (auto intro: bexI[of _ "length (node_features raw)"] bexI[of _ "length (graph_labels raw)"])
    then show ?thesis by (simp add: read_ba2motif_data_def ba2motif_loop_result)
  qed
  moreover have "read_ba2motif_data raw \<noteq> Inl MalformedInputError"
    by (simp add: read_ba2motif_data_def ba2motif_loop_result)
  moreover have "set (np_where_0 v) = {j. j < length v \<and> v ! j \<noteq> 0}"
    by (simp add: np_where_0_def set_where_from)
  moreover have "c \<noteq> 0 \<longrightarrow> np_where_0 (replicate a 0 @ [c] @ replicate b 0) = [a]"
    using where_from_one_hot[of c 0 a b] by (simp add: np_where_0_def)
  ultimately show ?thesis
    by (simp add: ba2motif_record_def np_where_0_def sorted_where_from where_from_zeros)
qed

theorem read_ba2motif_data_labels_witness:
  "read_ba2motif_data ba2motif_two =
     Inr [\<lparr> x = [[1], [1]], edge_index = [(0, 1), (1, 0)], y = [1],
            train_mask = None, val_mask = None, test_mask = None \<rparr>,
          \<lparr> x = [[1], [1]], edge_index = [], y = [0],
            train_mask = None, val_mask = None, test_mask = None \<rparr>] \<and>
   read_ba2motif_data (ba2motif_two\<lparr>graph_labels := [[0, 1]]\<rparr>) = Inl IndexError \<and>
   np_where_0 [0, 0, 5, 0] = [2]"
proof -
  have "read_ba2motif_data (ba2motif_two\<lparr>graph_labels := [[0, 1]]\<rparr>) = Inl IndexError"
    using read_ba2motif_data_labels[of "ba2motif_two\<lparr>graph_labels := [[0, 1]]\<rparr>" 0 "[]" 5 2 1]
    by (simp add: ba2motif_two_def)
  moreover have "np_where_0 [0, 0, 5, 0] = [2]"
    using read_ba2motif_data_labels[of ba2motif_two 0 "[]" 5 2 1]
    by (simp add: numeral_2_eq_2)
  ultimately show ?thesis using ba2motif_two_result by simp
qed

text \<open>
  The claim as written has the label vector [0, 0] raise MalformedInputError; the
  reader returns a record with the empty label.
\<close>

theorem read_ba2motif_data_no_class_counterexample:
  "read_ba2motif_data ba2motif_no_class =
     Inr [\<lparr> x = [[1], [1]], edge_index = [(0, 1), (1, 0)], y = [],
            train_mask = None, val_mask = None, test_mask = None \<rparr>] \<and>
   read_ba2motif_data ba2motif_no_class \<noteq> Inl MalformedInputError"
  by (simp add: read_ba2motif_data_def ba2motif_no_class_def ba2motif_record_def
      dense_to_sparse_def np_where_0_def)

text \<open>
  C4 (as amended). The single-graph reader never raises MalformedInputError: its only
  error is numpy's ValueError, raised when the shapes of the masks and the label
  matrices cannot be broadcast together, as when the train mask and \<open>y_train\<close>
  differ in their number of rows and neither has one row. On an input of the raw
  format it raises nothing and the label vector is, node by node, the list of the
  column indices of the nonzero entries of the node's row of
  train_mask * y_train + val_mask * y_val + test_mask * y_test (int64, wrapping).
  For a node with exactly one mask set that row is the row its mask designates; a
  node with no mask set contributes no label.
\<close>

theorem read_syn_data_labels:
  "(read_syn_data raw = Inl e \<longrightarrow> e = ValueError) \<and>
   (length (train_mask_raw raw) \<noteq> nrows (y_train raw) \<and> length (train_mask_raw raw) \<noteq> 1 \<and>
    nrows (y_train raw) \<noteq> 1 \<longrightarrow> read_syn_data raw = Inl ValueError) \<and>
   (syn_shapes_ok raw \<longrightarrow>
      read_syn_data raw =
        Inr \<lparr> x = features raw, edge_index = dense_to_sparse (adj raw),
              y = concat (map (\<lambda>n. np_where_0 (map sint (weighted_row raw n)))
                    [0..<length (train_mask_raw raw)]),
              train_mask = Some (train_mask_raw raw), val_mask = Some (val_mask_raw raw),
              test_mask = Some (test_mask_raw raw) \<rparr>) \<and>
   (syn_shapes_ok raw \<and> n < length (train_mask_raw raw) \<and> masks_on raw n = 1 \<longrightarrow>
      weighted_row raw n = designated_row raw n) \<and>
   (syn_shapes_ok raw \<and> n < length (train_mask_raw raw) \<and> masks_on raw n = 0 \<longrightarrow>
      np_where_0 (map sint (weighted_row raw n)) = [])"
proof (intro conjI impI)
  assume "read_syn_data raw = Inl e"
  then show "e = ValueError" by (rule read_syn_data_error)
next
  assume "length (train_mask_raw raw) \<noteq> nrows (y_train raw) \<and> length (train_mask_raw raw) \<noteq> 1 \<and>
    nrows (y_train raw) \<noteq> 1"
  then show "read_syn_data raw = Inl ValueError" by (simp add: read_syn_data_bad_rows)
next
  assume "syn_shapes_ok raw"
  then show "read_syn_data raw =
        Inr \<lparr> x = features raw, edge_index = dense_to_sparse (adj raw),
              y = concat (map (\<lambda>n. np_where_0 (map sint (weighted_row raw n)))
                    [0..<length (train_mask_raw raw)]),
              train_mask = Some (train_mask_raw raw), val_mask = Some (val_mask_raw raw),
              test_mask = Some (test_mask_raw raw) \<rparr>"
    by (rule read_syn_data_format)
next
  assume "syn_shapes_ok raw \<and> n < length (train_mask_raw raw) \<and> masks_on raw n = 1"
  then show "weighted_row raw n = designated_row raw n" by (simp add: weighted_row_one_mask)
next
  assume "syn_shapes_ok raw \<and> n < length (train_mask_raw raw) \<and> masks_on raw n = 0"
  then show "np_where_0 (map sint (weighted_row raw n)) = []" by (simp add: weighted_row_no_mask)
qed

theorem read_syn_data_labels_witness:
  "syn_shapes_ok syn_masked \<and> masks_on syn_masked 1 = 1 \<and>
   read_syn_data syn_masked =
     Inr \<lparr> x = [[1], [1]], edge_index = [(0, 1), (1, 0)], y = [1, 0],
           train_mask = Some [True, False], val_mask = Some [False, False],
           test_mask = Some [False, True] \<rparr> \<and>
   weighted_row syn_masked 1 = [1, 0] \<and> designated_row syn_masked 1 = [1, 0] \<and>
   syn_shapes_ok syn_unmasked \<and> masks_on syn_unmasked 1 = 0 \<and>
   np_where_0 (map sint (weighted_row syn_unmasked 1)) = [] \<and>
   length (train_mask_raw syn_bad_shape) = 3 \<and> nrows (y_train syn_bad_shape) = 2 \<and>
   read_syn_data syn_bad_shape = Inl ValueError \<and>
   syn_shapes_ok syn_wrapping \<and>
   read_syn_data syn_wrapping =
     Inr \<lparr> x = [[1]], edge_index = [], y = [],
           train_mask = Some [True], val_mask = Some [True], test_mask = Some [False] \<rparr>"
proof -
  have ok: "syn_shapes_ok syn_masked" "syn_shapes_ok syn_unmasked" "syn_shapes_ok syn_wrapping"
    by (simp_all add: syn_shapes_ok_def syn_masked_def syn_unmasked_def syn_wrapping_def
        is_ndarray_def nrows_def)
  have m: "masks_on syn_masked 1 = 1" "masks_on syn_unmasked 1 = 0"
    by (simp_all add: masks_on_def syn_masked_def syn_unmasked_def)
  have d: "designated_row syn_masked 1 = [1, 0]"
    by (simp add: designated_row_def syn_masked_def syn_unmasked_def)
  have l: "(1::nat) < length (train_mask_raw syn_masked)"
    "(1::nat) < length (train_mask_raw syn_unmasked)"
    "length (train_mask_raw syn_bad_shape) = 3" "nrows (y_train syn_bad_shape) = 2"
    by (simp_all add: syn_masked_def syn_unmasked_def syn_bad_shape_def nrows_def)
  have w: "concat (map (\<lambda>n. np_where_0 (map sint (weighted_row syn_wrapping n)))
      [0..<length (train_mask_raw syn_wrapping)]) = []"
    by (simp add: syn_wrapping_def weighted_row_def bit_of_def np_where_0_def)
  have f: "features syn_wrapping = [[1]]" "dense_to_sparse (adj syn_wrapping) = []"
    "train_mask_raw syn_wrapping = [True]" "val_mask_raw syn_wrapping = [True]"
    "test_mask_raw syn_wrapping = [False]"
    by (simp_all add: syn_wrapping_def dense_to_sparse_def)
  from read_syn_data_labels[of syn_masked ValueError 1]
    read_syn_data_labels[of syn_unmasked ValueError 1]
    read_syn_data_labels[of syn_bad_shape ValueError 1]
    read_syn_data_labels[of syn_wrapping ValueError 0]
    ok m d l w f syn_masked_data
  show ?thesis by simp
qed

text \<open>
  The claim as written has a node without a mask raise MalformedInputError; here node
  1 has no mask and the reader returns a record, with one label for two nodes.
\<close>

theorem read_syn_data_no_mask_counterexample:
  "masks_on syn_unmasked 1 = 0 \<and>
   read_syn_data syn_unmasked =
     Inr \<lparr> x = [[1], [1]], edge_index = [(0, 1), (1, 0)], y = [1],
           train_mask = Some [True, False], val_mask = Some [False, False],
           test_mask = Some [False, False] \<rparr> \<and>
   read_syn_data syn_unmasked \<noteq> Inl MalformedInputError"
  using syn_unmasked_result by (simp add: masks_on_def syn_unmasked_def)

section \<open>Claims about collation and the builders\<close>

text \<open>
  C7. For every list of records, the slice table of the collated dataset has one entry
  per record; the feature, edge and label ranges each tile their array (each range
  starts where the one before ends, from 0 to the length of the array), so every
  position of the feature array lies in the range of exactly one record; slice k of
  the features and of the labels is record k's, and slice k of the edges is record
  k's edges with both endpoints shifted by the node counts of the records before it.
  The empty list gives the empty dataset.
\<close>

theorem collate_slices:
  "length (slices (collate records)) = length (records :: 'l Data list) \<and>
   tiles 0 (map fst (slices (collate records))) (length (c_x (collate records))) \<and>
   tiles 0 (map (fst \<circ> snd) (slices (collate records))) (length (c_edge_index (collate records))) \<and>
   tiles 0 (map (snd \<circ> snd) (slices (collate records))) (length (c_y (collate records))) \<and>
   (p < length (c_x (collate records)) \<longrightarrow>
      (\<exists>k<length records. fst (fst (slices (collate records) ! k)) \<le> p \<and>
          p < snd (fst (slices (collate records) ! k)) \<and>
          (\<forall>j<length records. fst (fst (slices (collate records) ! j)) \<le> p \<and>
              p < snd (fst (slices (collate records) ! j)) \<longrightarrow> j = k))) \<and>
   c_x (collate records) = concat (map x records) \<and>
   c_y (collate records) = concat (map y records) \<and>
   (k < length records \<longrightarrow>
      slice_of (fst (slices (collate records) ! k)) (c_x (collate records)) = x (records ! k) \<and>
      slice_of (fst (snd (slices (collate records) ! k))) (c_edge_index (collate records)) =
        shift_edges (node_offset records k) (edge_index (records ! k)) \<and>
      slice_of (snd (snd (slices (collate records) ! k))) (c_y (collate records)) = y (records ! k)) \<and>
   collate [] = (empty_collated :: 'l CollatedDataset)"
proof -
  let ?C = "collate records"
  have len: "length (slices ?C) = length records"
    by (simp add: collate_def length_slices_collate_loop empty_collated_def)
  have "tiled (empty_collated :: 'l CollatedDataset)" by (simp add: tiled_def empty_collated_def)
  then have t: "tiled ?C" by (simp add: collate_def tiled_collate_loop)
  then have tx: "tiles 0 (map fst (slices ?C)) (length (c_x ?C))" by (simp add: tiled_def)
  have cover: "\<exists>k<length records. fst (fst (slices ?C ! k)) \<le> p \<and> p < snd (fst (slices ?C ! k)) \<and>
          (\<forall>j<length records. fst (fst (slices ?C ! j)) \<le> p \<and> p < snd (fst (slices ?C ! j)) \<longrightarrow> j = k)"
    if p: "p < length (c_x ?C)"
  proof -
    from tiles_cover[OF tx _ p] len obtain k where
      k: "k < length records" "fst (fst (slices ?C ! k)) \<le> p" "p < snd (fst (slices ?C ! k))"
      by auto
    have "j = k" if "j < length records" "fst (fst (slices ?C ! j)) \<le> p" "p < snd (fst (slices ?C ! j))" for j
      using tiles_disjoint[OF tx, of j k p] that k len by simp
    with k show ?thesis by blast
  qed
  have sl: "slice_of (fst (slices ?C ! k)) (c_x ?C) = x (records ! k) \<and>
      slice_of (fst (snd (slices ?C ! k))) (c_edge_index ?C) =
        shift_edges (node_offset records k) (edge_index (records ! k)) \<and>
      slice_of (snd (snd (slices ?C ! k))) (c_y ?C) = y (records ! k)"
    if "k < length records"
    using collate_loop_slice[OF that, of empty_collated]
    by (simp add: collate_def Let_def empty_collated_def)
  have arr: "c_x ?C = concat (map x records)" "c_y ?C = concat (map y records)"
    using collate_loop_arrays[of empty_collated records]
    by (simp_all add: collate_def empty_collated_def)
  have e: "collate [] = (empty_collated :: 'l CollatedDataset)" by (simp add: collate_def)
  from len t cover sl arr e show ?thesis unfolding tiled_def by blast
qed

theorem collate_slices_witness:
  "collate [class1_example, class2_example] =
     \<lparr> c_x = x class1_example @ x class2_example,
       c_edge_index = edge_index class1_example @ shift_edges 20 (edge_index class2_example),
       c_y = [[0], [1]],
       slices = [((0, 20), (0, 38), (0, 1)), ((20, 40), (38, 84), (1, 2))] \<rparr> \<and>
   (1::nat) < length [class1_example, class2_example] \<and>
   (25::nat) < length (c_x (collate [class1_example, class2_example])) \<and>
   slice_of (38, 84) (c_edge_index (collate [class1_example, class2_example])) =
     shift_edges 20 (edge_index class2_example) \<and>
   node_offset [class1_example, class2_example] 1 = 20 \<and>
   tiles 0 [(0, 20), (20, 40)] 40"
proof -
  have c: "collate [class1_example, class2_example] =
     \<lparr> c_x = x class1_example @ x class2_example,
       c_edge_index = edge_index class1_example @ shift_edges 20 (edge_index class2_example),
       c_y = [[0], [1]],
       slices = [((0, 20), (0, 38), (0, 1)), ((20, 40), (38, 84), (1, 2))] \<rparr>"
    by (simp add: collate_def append_record_def empty_collated_def Let_def class1_example_sizes
        class2_example_sizes shift_edges_zero length_shift_edges)
  have n: "node_offset [class1_example, class2_example] 1 = 20"
    by (simp add: node_offset_def class1_example_sizes)
  have l: "length (x class1_example @ x class2_example) = 40"
    by (simp add: class1_example_sizes class2_example_sizes)
  from collate_slices[of "[class1_example, class2_example]" 25 1] c n l
  show ?thesis by simp
qed

text \<open>
  C6. When the raw file is absent and \<open>num_per_class\<close> is not negative, what
  \<open>BA_LRP.process\<close> saves is the collation of exactly 2 * num_per_class graphs that
  alternate class 1, class 2, class 1, class 2, ...: the labels are
  0, 1, 0, 1, ..., the collated dataset has one slice per graph, and slice k gives
  back graph k, so collation keeps the order. With \<open>num_per_class\<close> = 0 the result
  is the empty dataset and no error. And it does save: on every sequence of draws
  made of admissible draws for \<open>num_per_class\<close> rounds, \<open>BA_LRP.process\<close> returns a
  saved dataset and leaves the draws that follow.
\<close>

theorem BA_LRP_process_alternates:
  "(0 \<le> num_per_class \<and> BA_LRP_process False num_per_class draws = Inr (Saved c, rest) \<longrightarrow>
      (\<exists>data_list. c = collate data_list \<and> length data_list = 2 * nat num_per_class \<and>
         alternating data_list \<and>
         map y data_list = concat (replicate (nat num_per_class) [[[0]], [[1]]]) \<and>
         length (slices c) = 2 * nat num_per_class \<and>
         c_y c = concat (replicate (nat num_per_class) [[0], [1]]) \<and>
         (\<forall>k<2 * nat num_per_class.
            slice_of (fst (slices c ! k)) (c_x c) = x (data_list ! k) \<and>
            slice_of (snd (snd (slices c ! k))) (c_y c) = y (data_list ! k)))) \<and>
   BA_LRP_process False 0 draws = Inr (Saved empty_collated, draws) \<and>
   (length runs = nat num_per_class \<and> admissible_runs runs \<longrightarrow>
      (\<exists>c'. BA_LRP_process False num_per_class (run_draws runs @ rest') = Inr (Saved c', rest')))"
proof (intro conjI impI)
  assume a: "0 \<le> num_per_class \<and> BA_LRP_process False num_per_class draws = Inr (Saved c, rest)"
  then obtain data_list where
    l: "BA_LRP_loop (nat num_per_class) [] draws = Inr (data_list, rest)" and c: "c = collate data_list"
    by (auto simp: BA_LRP_process_def split: sum.splits)
  from BA_LRP_loop_result[OF l] have len: "length data_list = 2 * nat num_per_class"
    and alt: "alternating data_list" by auto
  have lab: "map y data_list = concat (replicate (nat num_per_class) [[[0]], [[1]]])"
    using alt len
  proof (induction data_list arbitrary: num_per_class rule: alternating.induct)
    case (3 g1 g2 gs)
    then obtain m where m: "nat num_per_class = Suc m" "length gs = 2 * m"
      by (cases "nat num_per_class") auto
    from 3 have "map y gs = concat (replicate (nat (int m)) [[[0]], [[1]]])"
      using m by (intro "3.IH") simp_all
    with 3 m show ?case by (simp add: is_class1_label is_class2_label)
  qed simp_all
  have cy: "c_y c = concat (replicate (nat num_per_class) [[0], [1]])"
    using alternating_labels[OF alt] len by (simp add: c collate_arrays)
  have sl: "\<forall>k<2 * nat num_per_class.
            slice_of (fst (slices c ! k)) (c_x c) = x (data_list ! k) \<and>
            slice_of (snd (snd (slices c ! k))) (c_y c) = y (data_list ! k)"
    unfolding c using len by (simp add: collate_slice)
  have "length (slices c) = 2 * nat num_per_class"
    by (simp add: c length_slices_collate len)
  with len alt lab cy sl c show "\<exists>data_list. c = collate data_list \<and> length data_list = 2 * nat num_per_class \<and>
         alternating data_list \<and>
         map y data_list = concat (replicate (nat num_per_class) [[[0]], [[1]]]) \<and>
         length (slices c) = 2 * nat num_per_class \<and>
         c_y c = concat (replicate (nat num_per_class) [[0], [1]]) \<and>
         (\<forall>k<2 * nat num_per_class.
            slice_of (fst (slices c ! k)) (c_x c) = x (data_list ! k) \<and>
            slice_of (snd (snd (slices c ! k))) (c_y c) = y (data_list ! k))"
    by blast
next
  show "BA_LRP_process False 0 draws = Inr (Saved empty_collated, draws)"
    by (simp add: BA_LRP_process_def collate_def)
next
  assume r: "length runs = nat num_per_class \<and> admissible_runs runs"
  then obtain data_list where
    "BA_LRP_loop (length runs) [] (run_draws runs @ rest') = Inr (data_list, rest')"
    using BA_LRP_loop_returns[of runs "[]" rest'] by blast
  with r show "\<exists>c'. BA_LRP_process False num_per_class (run_draws runs @ rest') = Inr (Saved c', rest')"
    by (simp add: BA_LRP_process_def)
qed

theorem BA_LRP_process_alternates_witness:
  "(0::int) \<le> 2 \<and>
   BA_LRP_process False 2 (class1_draws @ class2_draws @ class1_draws @ class2_draws) =
     Inr (Saved (collate [class1_example, class2_example, class1_example, class2_example]), []) \<and>
   length (slices (collate [class1_example, class2_example, class1_example, class2_example])) = 4 \<and>
   c_y (collate [class1_example, class2_example, class1_example, class2_example]) =
     [[0], [1], [0], [1]] \<and>
   length two_rounds = nat 2 \<and> admissible_runs two_rounds \<and>
   (\<exists>c'. BA_LRP_process False 2 (run_draws two_rounds @ []) = Inr (Saved c', []))"
proof -
  from BA_LRP_process_alternates[of 2 "class1_draws @ class2_draws @ class1_draws @ class2_draws"
      "collate [class1_example, class2_example, class1_example, class2_example]" "[]"
      two_rounds "[]"] two_rounds_saved two_rounds_admissible
  have "length (slices (collate [class1_example, class2_example, class1_example, class2_example])) =
      2 * nat 2"
    "c_y (collate [class1_example, class2_example, class1_example, class2_example]) =
      concat (replicate (nat 2) [[0], [1]])"
    "\<exists>c'. BA_LRP_process False 2 (run_draws two_rounds @ []) = Inr (Saved c', [])"
    by auto
  then show ?thesis
    using two_rounds_saved two_rounds_admissible by (simp add: numeral_2_eq_2)
qed

text \<open>
  C8. What \<open>SynGraphDataset.process\<close> does with the hooks. Single-graph input: the saved
  dataset is the collation of the one record read, transformed when there is a
  transform. Multi-graph input with no hook: the collation of the records read.
  Multi-graph input with a transform (and no filter, as the constructor leaves it):
  the records read play no part; the transform is mapped over what the object
  itself holds, and when reading that fails, so does \<open>process\<close>. The claim, and the
  docstring of the class, have the transform applied to the records read.
\<close>

theorem SynGraphDataset_process_hooks:
  "(lower (name self) \<noteq> lower ''BA_2Motifs'' \<and> read_syn_data raw = Inr data \<longrightarrow>
      SynGraphDataset_process get_all self held (SynFile raw) =
        Inr (collate [case pre_transform self of None \<Rightarrow> data | Some f \<Rightarrow> f data])) \<and>
   (lower (name self) = lower ''BA_2Motifs'' \<and> pre_filter self = None \<and>
    pre_transform self = None \<and> read_ba2motif_data raw2 = Inr data_list \<longrightarrow>
      SynGraphDataset_process get_all self held (Ba2motifFile raw2) = Inr (collate data_list)) \<and>
   (lower (name self) = lower ''BA_2Motifs'' \<and> pre_filter self = None \<and>
    pre_transform self = Some g \<and> read_ba2motif_data raw2 = Inr data_list \<longrightarrow>
      SynGraphDataset_process get_all self held (Ba2motifFile raw2) =
        (case get_all held of
           Inl e \<Rightarrow> Inl e
         | Inr stored \<Rightarrow> Inr (collate (map g stored))))"
  by (auto simp: SynGraphDataset_process_def filter_hook_def transform_hook_def Let_def
      split: sum.splits)

theorem SynGraphDataset_process_hooks_witness:
  "lower (name ba_shapes_self) \<noteq> lower ''BA_2Motifs'' \<and>
   SynGraphDataset_process get_all_unassigned ba_shapes_self None (SynFile syn_masked) =
     Inr (collate [\<lparr> x = [[1], [1]], edge_index = [(0, 1), (1, 0)], y = [],
           train_mask = Some [True, False], val_mask = Some [False, False],
           test_mask = Some [False, True] \<rparr>]) \<and>
   lower (name ba2motifs_self) = lower ''BA_2Motifs'' \<and>
   SynGraphDataset_process get_all_unassigned ba2motifs_self None (Ba2motifFile ba2motif_two) =
     Inr (collate [\<lparr> x = [[1], [1]], edge_index = [(0, 1), (1, 0)], y = [1],
            train_mask = None, val_mask = None, test_mask = None \<rparr>,
          \<lparr> x = [[1], [1]], edge_index = [], y = [0],
            train_mask = None, val_mask = None, test_mask = None \<rparr>]) \<and>
   lower (name ba2motifs_transform_self) = lower ''BA_2Motifs'' \<and>
   pre_transform ba2motifs_transform_self = Some clear_labels \<and>
   read_ba2motif_data ba2motif_two =
     Inr [\<lparr> x = [[1], [1]], edge_index = [(0, 1), (1, 0)], y = [1],
            train_mask = None, val_mask = None, test_mask = None \<rparr>,
          \<lparr> x = [[1], [1]], edge_index = [], y = [0],
            train_mask = None, val_mask = None, test_mask = None \<rparr>] \<and>
   SynGraphDataset_process get_all_unassigned ba2motifs_transform_self None
     (Ba2motifFile ba2motif_two) = Inl AttributeError"
proof -
  let ?d = "\<lparr> x = [[1], [1]], edge_index = [(0, 1), (1, 0)], y = [1, 0],
           train_mask = Some [True, False], val_mask = Some [False, False],
           test_mask = Some [False, True] \<rparr> :: nat Data"
  let ?l = "[\<lparr> x = [[1], [1]], edge_index = [(0, 1), (1, 0)], y = [1],
            train_mask = None, val_mask = None, test_mask = None \<rparr>,
          \<lparr> x = [[1], [1]], edge_index = [], y = [0],
            train_mask = None, val_mask = None, test_mask = None \<rparr>] :: nat Data list"
  from SynGraphDataset_process_hooks[of ba_shapes_self syn_masked ?d get_all_unassigned None
      ba2motif_two ?l clear_labels]
    SynGraphDataset_process_hooks[of ba2motifs_self syn_masked ?d get_all_unassigned None
      ba2motif_two ?l clear_labels]
    SynGraphDataset_process_hooks[of ba2motifs_transform_self syn_masked ?d get_all_unassigned None
      ba2motif_two ?l clear_labels]
  show ?thesis
    by (simp add: ba_shapes_self_def ba2motifs_self_def ba2motifs_transform_self_def lower_names
        syn_masked_data ba2motif_two_result clear_labels_def get_all_unassigned_def)
qed

end
